theory Spec2Isabelle
  imports Complex_Main "HOL-Library.Option_ord" "HOL-Library.Multiset"
begin

section \<open>Values and errors\<close>

text \<open>
  The evaluation and loss code of \<^verbatim>\<open>openhgnn/trainerflow/recommendation.py\<close> is embedded
  over the real numbers: a tensor or array entry is a \<^typ>\<open>real\<close>, a one-dimensional tensor
  a list, a matrix a list of rows. Rounding is outside this embedding. The non-finite
  values of floating point are kept apart from the reals where the properties below
  depend on them:
  \<^item> negative infinity is \<open>None\<close> in \<^typ>\<open>real option\<close>, whose order puts \<open>None\<close> below every
    \<open>Some x\<close>. It is the \<^verbatim>\<open>np.NINF\<close> written into the score matrix to mask training
    edges, and it is also a value that an entry of the score vector can have by itself
    (a float32 dot product that overflows), so the score vector handed to the evaluator
    is a list of \<^typ>\<open>real option\<close>;
  \<^item> the not-a-number that \<^verbatim>\<open>np.mean\<close> and \<^verbatim>\<open>torch.mean\<close> return on an empty input is
    the constructor \<open>NaN\<close> of the type \<open>num\<close>; sums and products with it are \<open>NaN\<close>;
  \<^item> the regularisation term of the loss, which squares every embedding entry, is embedded
    a second time over the type \<open>f32\<close>, in which a result beyond the largest float32 is
    an infinity.
  Every exception the code can raise is a value of \<open>error\<close>; \<open>DGLError\<close> is the one DGL
  raises when node data of the wrong row count is assigned.
\<close>

datatype error =
    ValueError
  | IndexError
  | KeyError
  | ZeroDivisionError
  | RuntimeError
  | NotImplementedError
  | DGLError

datatype num = NaN | Num real

type_synonym score = "real option"

fun num_add :: "num \<Rightarrow> num \<Rightarrow> num" where
  "num_add (Num a) (Num b) = Num (a + b)"
| "num_add _ _ = NaN"

fun num_mul :: "num \<Rightarrow> num \<Rightarrow> num" where
  "num_mul (Num a) (Num b) = Num (a * b)"
| "num_mul _ _ = NaN"

fun num_uminus :: "num \<Rightarrow> num" where
  "num_uminus (Num a) = Num (- a)"
| "num_uminus NaN = NaN"

text \<open>\<^verbatim>\<open>np.mean\<close> of a Python list and \<^verbatim>\<open>torch.mean\<close> of a tensor: not-a-number on no entries.\<close>

definition np_mean :: "real list \<Rightarrow> num" where
  "np_mean xs = (if xs = [] then NaN else Num (sum_list xs / real (length xs)))"

definition th_mean :: "real list \<Rightarrow> num" where
  "th_mean xs = (if xs = [] then NaN else Num (sum_list xs / real (length xs)))"

section \<open>Graphs and the state of the flow\<close>

text \<open>
  A DGL heterograph as this file uses it: the node counts of the types \<^verbatim>\<open>user\<close> and
  \<^verbatim>\<open>item\<close> and the edges of the relation \<^verbatim>\<open>user-item\<close>, in edge-id order.
  \<^verbatim>\<open>g.successors(user, etype='user-item')\<close> lists the items of the edges leaving \<open>user\<close>.
\<close>

record hetero_graph =
  num_nodes_user :: nat
  num_nodes_item :: nat
  ui_edges :: "(nat \<times> nat) list"

definition successors :: "hetero_graph \<Rightarrow> nat \<Rightarrow> nat list" where
  "successors g u = map snd (filter (\<lambda>e. fst e = u) (ui_edges g))"

text \<open>
  The attributes of \<^verbatim>\<open>Recommendation\<close> that the modelled methods read. The graph
  attributes do not exist before \<^verbatim>\<open>preprocess\<close>; they are \<open>None\<close> until then. The model,
  the optimizer and the task object are external and are not part of the record.
  \<^verbatim>\<open>
      self.reg_weight = 0
      self.metric = ['recall', 'ndcg']
      self.val_metric = 'recall'
      self.topk = 20
      ...
      self.patience = args.patience
      self.max_epoch = args.max_epoch
      self.num_neg = self.task.dataset.num_neg
      self.num_user = self.hg.num_nodes('user')
      self.num_item = self.hg.num_nodes('item')
  \<close>
\<close>

record flow =
  reg_weight :: real
  metric :: "string list"
  val_metric :: string
  topk :: nat
  patience :: nat
  max_epoch :: nat
  num_neg :: nat
  num_user :: nat
  num_item :: nat
  train_hg :: "hetero_graph option"
  val_hg :: "hetero_graph option"
  test_hg :: "hetero_graph option"
  negative_graph :: "hetero_graph option"
  positive_graph :: "hetero_graph option"
  eval_graph :: "hetero_graph option"

definition init :: "nat \<Rightarrow> nat \<Rightarrow> nat \<Rightarrow> nat \<Rightarrow> nat \<Rightarrow> flow" where
  "init args_patience args_max_epoch dataset_num_neg hg_num_user hg_num_item =
     \<lparr>reg_weight = 0, metric = [''recall'', ''ndcg''], val_metric = ''recall'', topk = 20,
      patience = args_patience, max_epoch = args_max_epoch, num_neg = dataset_num_neg,
      num_user = hg_num_user, num_item = hg_num_item,
      train_hg = None, val_hg = None, test_hg = None, negative_graph = None,
      positive_graph = None, eval_graph = None\<rparr>"

text \<open>
  \<^verbatim>\<open>t.repeat_interleave(n)\<close> repeats each entry \<open>n\<close> times in place; \<^verbatim>\<open>t.repeat(n)\<close> repeats the
  whole tensor \<open>n\<close> times.
\<close>

definition repeat_interleave :: "'a list \<Rightarrow> nat \<Rightarrow> 'a list" where
  "repeat_interleave xs n = concat (map (replicate n) xs)"

definition repeat :: "'a list \<Rightarrow> nat \<Rightarrow> 'a list" where
  "repeat xs n = concat (replicate n xs)"

text \<open>
  \<^verbatim>\<open>
  def preprocess(self):
      self.train_hg, self.val_hg, self.test_hg = self.task.get_idx()
      self.train_neg_hg = self.task.dataset.construct_negative_graph(self.train_hg)
      ...
      self.negative_graph = self.train_neg_hg.to(self.device)
      self.positive_graph = self.train_hg.edge_type_subgraph([self.target_link])
      src, dst = th.arange(self.num_user), th.arange(self.num_item)
      src = src.repeat_interleave(self.num_item)
      dst = dst.repeat(self.num_user)
      self.eval_graph = dgl.heterograph({('user', 'user-item', 'item'): (src, dst)}, ...)
  \<close>
  The splits and the negative graph come from the task; they are arguments here. A
  \<open>hetero_graph\<close> holds the target relation only, so the edge-type subgraph of the training
  graph is the training graph.
\<close>

definition preprocess ::
  "flow \<Rightarrow> hetero_graph \<Rightarrow> hetero_graph \<Rightarrow> hetero_graph \<Rightarrow> hetero_graph \<Rightarrow> flow" where
  "preprocess self tr va te train_neg_hg =
     (let src = repeat_interleave [0..<num_user self] (num_item self);
          dst = repeat [0..<num_item self] (num_user self)
      in self\<lparr>train_hg := Some tr, val_hg := Some va, test_hg := Some te,
              negative_graph := Some train_neg_hg, positive_graph := Some tr,
              eval_graph := Some \<lparr>num_nodes_user = num_user self, num_nodes_item = num_item self,
                                   ui_edges = zip src dst\<rparr>\<rparr>)"

text \<open>
  The states of a run: the constructor's, and those after \<^verbatim>\<open>preprocess\<close>. The training and
  evaluation steps assign no attribute of the flow (they change the external model only).
\<close>

inductive reachable :: "flow \<Rightarrow> bool" where
  constructed: "reachable (init pa me nn nu ni)"
| preprocessed: "reachable self \<Longrightarrow> reachable (preprocess self tr va te ng)"

section \<open>Score predictor and ranking loss\<close>

text \<open>
  \<^verbatim>\<open>
  def ScorePredictor(self, edge_subgraph, x):
      with edge_subgraph.local_scope():
          for ntype in ['user', 'item']:
              edge_subgraph.nodes[ntype].data['x'] = x[ntype]
          edge_subgraph.apply_edges(dgl.function.u_dot_v('x', 'x', 'score'), etype='user-item')
          score = edge_subgraph.edges['user-item'].data['score']
          return score.squeeze()
  \<close>
  The embedding is a dictionary from node type to matrix, kept as an association list in
  insertion order. The endpoints of an edge are below the node counts (a DGL graph has no
  other edges). Assigning a matrix whose row count is not the node count is a
  \<^verbatim>\<open>DGLError\<close>, and so is \<^verbatim>\<open>u_dot_v\<close> on user and item rows of different widths.
\<close>

type_synonym embedding = "(string \<times> real list list) list"

definition dot :: "real list \<Rightarrow> real list \<Rightarrow> real" where
  "dot a b = sum_list (map2 (*) a b)"

definition ScorePredictor :: "hetero_graph \<Rightarrow> embedding \<Rightarrow> error + real list" where
  "ScorePredictor edge_subgraph x =
     (case map_of x ''user'' of None \<Rightarrow> Inl KeyError | Some x_user \<Rightarrow>
      if length x_user \<noteq> num_nodes_user edge_subgraph then Inl DGLError else
      case map_of x ''item'' of None \<Rightarrow> Inl KeyError | Some x_item \<Rightarrow>
      if length x_item \<noteq> num_nodes_item edge_subgraph then Inl DGLError else
      if \<exists>a \<in> set x_user. \<exists>b \<in> set x_item. length a \<noteq> length b then Inl DGLError else
        Inr (map (\<lambda>(u, i). dot (x_user ! u) (x_item ! i)) (ui_edges edge_subgraph)))"

text \<open>
  The difference of two one-dimensional tensors: elementwise on equal lengths, broadcast
  when one side has a single entry, a \<^verbatim>\<open>RuntimeError\<close> otherwise.
\<close>

definition tensor_sub :: "real list \<Rightarrow> real list \<Rightarrow> error + real list" where
  "tensor_sub a b =
     (if length a = length b then Inr (map2 (-) a b)
      else if length b = 1 then Inr (map (\<lambda>v. v - b ! 0) a)
      else if length a = 1 then Inr (map (\<lambda>v. a ! 0 - v) b)
      else Inl RuntimeError)"

definition sigmoid :: "real \<Rightarrow> real" where
  "sigmoid x = 1 / (1 + exp (- x))"

text \<open>
  \<^verbatim>\<open>
  def regularization_loss(self, embedding):
      reg_loss = th.zeros(1, 1, device=self.device)
      for e in embedding.values():
          reg_loss += th.mean(e.pow(2))
      return reg_loss
  \<close>
\<close>

definition regularization_loss :: "embedding \<Rightarrow> num" where
  "regularization_loss embedding =
     foldl (\<lambda>reg_loss e. num_add reg_loss (th_mean (map (\<lambda>v. v ^ 2) (concat e))))
       (Num 0) (map snd embedding)"

text \<open>
  \<^verbatim>\<open>
  def loss_calculation(self, positive_graph, negative_graph, embedding):
      p_score = self.ScorePredictor(positive_graph, embedding).repeat_interleave(self.num_neg)
      n_score = self.ScorePredictor(negative_graph, embedding)
      bpr_loss = -torch.log(torch.sigmoid(p_score - n_score)).mean()
      reg_loss = self.regularization_loss(embedding)
      return bpr_loss + self.reg_weight * reg_loss
  \<close>
  The first three lines, which compute the local variable \<^verbatim>\<open>bpr_loss\<close>, are the function
  \<open>bpr_loss\<close>; the minus sign applies to the mean, as in the source.
\<close>

definition bpr_loss :: "flow \<Rightarrow> hetero_graph \<Rightarrow> hetero_graph \<Rightarrow> embedding \<Rightarrow> error + num" where
  "bpr_loss self positive_g negative_g embedding =
     (case ScorePredictor positive_g embedding of Inl e \<Rightarrow> Inl e | Inr ps \<Rightarrow>
      let p_score = repeat_interleave ps (num_neg self) in
      case ScorePredictor negative_g embedding of Inl e \<Rightarrow> Inl e | Inr n_score \<Rightarrow>
      case tensor_sub p_score n_score of Inl e \<Rightarrow> Inl e | Inr d \<Rightarrow>
        Inr (num_uminus (th_mean (map (\<lambda>v. ln (sigmoid v)) d))))"

definition loss_calculation :: "flow \<Rightarrow> hetero_graph \<Rightarrow> hetero_graph \<Rightarrow> embedding \<Rightarrow> error + num" where
  "loss_calculation self positive_g negative_g embedding =
     (case bpr_loss self positive_g negative_g embedding of Inl e \<Rightarrow> Inl e | Inr bpr \<Rightarrow>
        let reg_loss = regularization_loss embedding
        in Inr (num_add bpr (num_mul (Num (reg_weight self)) reg_loss)))"

subsection \<open>The loss in the range of float32\<close>

text \<open>
  The definitions above compute with exact reals. A float32 has a largest finite value;
  a result beyond it is an infinity, and arithmetic on infinities can give not-a-number
  (\<open>0 * inf\<close>, \<open>inf - inf\<close>). The regularisation term squares every embedding entry, so it
  is where that range matters for the loss. This subsection embeds
  \<^verbatim>\<open>regularization_loss\<close> and the last line of \<^verbatim>\<open>loss_calculation\<close> a second time, over
  values that are a finite real, an infinity or not-a-number: each operation has its
  exact result when that is within the range and the infinity of its sign otherwise.
  Rounding inside the range remains outside the embedding. The BPR term is taken from
  \<open>bpr_loss\<close> above.
\<close>

datatype f32 = FNaN | PInf | NInf | Fin real

definition f32_max :: real where
  "f32_max = 2 ^ 128 - 2 ^ 104"

definition f32_of :: "real \<Rightarrow> f32" where
  "f32_of x = (if f32_max < x then PInf else if x < - f32_max then NInf else Fin x)"

definition f32_of_num :: "num \<Rightarrow> f32" where
  "f32_of_num v = (case v of NaN \<Rightarrow> FNaN | Num r \<Rightarrow> f32_of r)"

fun f32_add :: "f32 \<Rightarrow> f32 \<Rightarrow> f32" where
  "f32_add (Fin a) (Fin b) = f32_of (a + b)"
| "f32_add FNaN _ = FNaN"
| "f32_add _ FNaN = FNaN"
| "f32_add PInf NInf = FNaN"
| "f32_add NInf PInf = FNaN"
| "f32_add PInf _ = PInf"
| "f32_add _ PInf = PInf"
| "f32_add NInf _ = NInf"
| "f32_add _ NInf = NInf"

fun f32_mul :: "f32 \<Rightarrow> f32 \<Rightarrow> f32" where
  "f32_mul (Fin a) (Fin b) = f32_of (a * b)"
| "f32_mul FNaN _ = FNaN"
| "f32_mul _ FNaN = FNaN"
| "f32_mul (Fin a) PInf = (if a = 0 then FNaN else if 0 < a then PInf else NInf)"
| "f32_mul (Fin a) NInf = (if a = 0 then FNaN else if 0 < a then NInf else PInf)"
| "f32_mul PInf (Fin b) = (if b = 0 then FNaN else if 0 < b then PInf else NInf)"
| "f32_mul NInf (Fin b) = (if b = 0 then FNaN else if 0 < b then NInf else PInf)"
| "f32_mul PInf PInf = PInf"
| "f32_mul NInf NInf = PInf"
| "f32_mul PInf NInf = NInf"
| "f32_mul NInf PInf = NInf"

text \<open>The quotient of a sum by the number of its entries, a positive count.\<close>

fun f32_div_count :: "f32 \<Rightarrow> nat \<Rightarrow> f32" where
  "f32_div_count (Fin a) n = f32_of (a / real n)"
| "f32_div_count v n = v"

definition th_mean_f32 :: "f32 list \<Rightarrow> f32" where
  "th_mean_f32 xs =
     (if xs = [] then FNaN else f32_div_count (foldl f32_add (Fin 0) xs) (length xs))"

definition regularization_loss_f32 :: "embedding \<Rightarrow> f32" where
  "regularization_loss_f32 embedding =
     foldl (\<lambda>reg_loss e. f32_add reg_loss (th_mean_f32 (map (\<lambda>v. f32_of (v ^ 2)) (concat e))))
       (Fin 0) (map snd embedding)"

definition loss_calculation_f32 ::
  "flow \<Rightarrow> hetero_graph \<Rightarrow> hetero_graph \<Rightarrow> embedding \<Rightarrow> error + f32" where
  "loss_calculation_f32 self positive_g negative_g embedding =
     (case bpr_loss self positive_g negative_g embedding of Inl e \<Rightarrow> Inl e | Inr bpr \<Rightarrow>
        let reg_loss = regularization_loss_f32 embedding
        in Inr (f32_add (f32_of_num bpr) (f32_mul (Fin (reg_weight self)) reg_loss)))"

section \<open>The top-K evaluator\<close>

text \<open>
  The ranking part of \<^verbatim>\<open>_test_step\<close>, from the flat score vector that \<^verbatim>\<open>ScorePredictor\<close>
  returns on the evaluation graph. Its entries are float32 values: \<open>Some x\<close> a finite
  score, \<open>None\<close> a score of negative infinity. (Scores of positive infinity and
  not-a-number are outside the embedding.)
  \<^verbatim>\<open>
      score_matrix = np.reshape(score_matrix, (self.num_user, self.num_item))
      train_u, train_i = self.positive_graph.edges(etype='user-item')[0]..., ...[1]...
      score_matrix[train_u, train_i] = np.NINF
      ind = np.argpartition(score_matrix, -self.topk)
      ind = ind[:, -self.topk:]
      arr_ind = score_matrix[np.arange(self.num_user)[:, None], ind]
      arr_ind_argsort = np.argsort(arr_ind)[np.arange(self.num_user), ::-1]
      pred_list = ind[np.arange(len(score_matrix))[:, None], arr_ind_argsort]
  \<close>
\<close>

definition reshape :: "'a list \<Rightarrow> nat \<Rightarrow> nat \<Rightarrow> error + 'a list list" where
  "reshape xs U I =
     (if length xs = U * I then Inr (map (\<lambda>u. take I (drop (u * I) xs)) [0..<U])
      else Inl ValueError)"

text \<open>The indexed assignment \<^verbatim>\<open>score_matrix[train_u, train_i] = np.NINF\<close>, one edge at a time.\<close>

fun mask_train :: "score list list \<Rightarrow> (nat \<times> nat) list \<Rightarrow> error + score list list" where
  "mask_train m [] = Inr m"
| "mask_train m ((u, i) # es) =
     (if u < length m \<and> i < length (m ! u)
      then mask_train (m[u := (m ! u)[i := None]]) es
      else Inl IndexError)"

definition masked_score_matrix ::
  "score list \<Rightarrow> nat \<Rightarrow> nat \<Rightarrow> (nat \<times> nat) list \<Rightarrow> error + score list list" where
  "masked_score_matrix scores U I train =
     (case reshape scores U I of Inl e \<Rightarrow> Inl e
      | Inr m \<Rightarrow> mask_train m train)"

text \<open>
  \<^verbatim>\<open>np.argpartition\<close> and \<^verbatim>\<open>np.argsort\<close> are library functions whose order among equal
  values is not fixed by their documentation. They are parameters of the evaluator: a
  function from a row (and the position \<open>kth\<close>) to an index list. What numpy documents
  is their contract: the result is a permutation of the positions of the row; for
  \<^verbatim>\<open>argpartition\<close> the entry at position \<open>kth\<close> is in its sorted place, no entry before it
  is larger and no entry after it is smaller; for \<^verbatim>\<open>argsort\<close> the entries are ascending.
\<close>

definition argpartition_ok :: "score list \<Rightarrow> nat \<Rightarrow> nat list \<Rightarrow> bool" where
  "argpartition_ok row kth ind \<longleftrightarrow>
     mset ind = mset [0..<length row]
     \<and> (\<forall>i < kth. row ! (ind ! i) \<le> row ! (ind ! kth))
     \<and> (\<forall>i < length row. kth < i \<longrightarrow> row ! (ind ! kth) \<le> row ! (ind ! i))"

definition argsort_ok :: "score list \<Rightarrow> nat list \<Rightarrow> bool" where
  "argsort_ok row ind \<longleftrightarrow>
     mset ind = mset [0..<length row] \<and> sorted (map (\<lambda>i. row ! i) ind)"

definition argpartition_contract :: "(score list \<Rightarrow> nat \<Rightarrow> nat list) \<Rightarrow> bool" where
  "argpartition_contract ap \<longleftrightarrow> (\<forall>row kth. kth < length row \<longrightarrow> argpartition_ok row kth (ap row kth))"

definition argsort_contract :: "(score list \<Rightarrow> nat list) \<Rightarrow> bool" where
  "argsort_contract as \<longleftrightarrow> (\<forall>row. argsort_ok row (as row))"

text \<open>
  Two functions that meet the contracts (a stable sort of the positions), used to run the
  evaluator on concrete inputs.
\<close>

definition stable_argsort :: "score list \<Rightarrow> nat list" where
  "stable_argsort row = sort_key (\<lambda>i. row ! i) [0..<length row]"

definition sorting_argpartition :: "score list \<Rightarrow> nat \<Rightarrow> nat list" where
  "sorting_argpartition row kth = stable_argsort row"

text \<open>
  \<^verbatim>\<open>np.argpartition(a, kth)\<close> along the last axis of a \<open>U \<times> I\<close> array: a negative \<open>kth\<close>
  counts from the end; on a non-empty array a \<open>kth\<close> outside \<open>0..I-1\<close> is a
  \<^verbatim>\<open>ValueError\<close>; an empty array gives an empty index array.
\<close>

definition np_argpartition ::
  "(score list \<Rightarrow> nat \<Rightarrow> nat list) \<Rightarrow> score list list \<Rightarrow> nat \<Rightarrow> nat \<Rightarrow> int \<Rightarrow> error + nat list list" where
  "np_argpartition ap a U I kth =
     (let kth' = (if kth < 0 then kth + int I else kth) in
      if U * I = 0 then Inr (map (\<lambda>row. []) a)
      else if kth' < 0 \<or> int I \<le> kth' then Inl ValueError
      else Inr (map (\<lambda>row. ap row (nat kth')) a))"

text \<open>
  \<^verbatim>\<open>ind[:, -K:]\<close> (the slice \<^verbatim>\<open>-0:\<close> is the whole row), \<^verbatim>\<open>a[np.arange(U)[:, None], ind]\<close>
  (entry \<open>(u, j)\<close> is \<open>a[u][ind[u][j]]\<close>) and \<^verbatim>\<open>a[np.arange(U), ::-1]\<close> (row \<open>u\<close> is row \<open>u\<close> of
  \<open>a\<close> reversed).
\<close>

definition last_cols :: "nat \<Rightarrow> 'a list list \<Rightarrow> 'a list list" where
  "last_cols K a = map (\<lambda>row. drop (if K = 0 then 0 else length row - K) row) a"

definition take_rows :: "'a list list \<Rightarrow> nat list list \<Rightarrow> 'a list list" where
  "take_rows a ind = map2 (\<lambda>row idx. map (\<lambda>j. row ! j) idx) a ind"

definition reverse_rows :: "nat \<Rightarrow> 'a list list \<Rightarrow> 'a list list" where
  "reverse_rows U a = map (\<lambda>u. rev (a ! u)) [0..<U]"

definition pred_list_of ::
  "(score list \<Rightarrow> nat \<Rightarrow> nat list) \<Rightarrow> (score list \<Rightarrow> nat list) \<Rightarrow>
     score list \<Rightarrow> nat \<Rightarrow> nat \<Rightarrow> (nat \<times> nat) list \<Rightarrow> nat \<Rightarrow> error + nat list list" where
  "pred_list_of ap as scores U I train K =
     (case masked_score_matrix scores U I train of Inl e \<Rightarrow> Inl e | Inr score_matrix \<Rightarrow>
      case np_argpartition ap score_matrix U I (- int K) of Inl e \<Rightarrow> Inl e | Inr ind0 \<Rightarrow>
        let ind = last_cols K ind0;
            arr_ind = take_rows score_matrix ind;
            arr_ind_argsort = reverse_rows U (map as arr_ind)
        in Inr (take_rows ind arr_ind_argsort))"

text \<open>
  What the five ranking lines compute on one row, when \<open>0 < K \<le> length row\<close>; the proofs
  below go through it.
\<close>

definition topk_row ::
  "(score list \<Rightarrow> nat \<Rightarrow> nat list) \<Rightarrow> (score list \<Rightarrow> nat list) \<Rightarrow> score list \<Rightarrow> nat \<Rightarrow> nat list" where
  "topk_row ap as row K =
     (let ind = drop (length row - K) (ap row (length row - K));
          arr_ind = map (\<lambda>j. row ! j) ind
      in map (\<lambda>j. ind ! j) (rev (as arr_ind)))"

section \<open>The metrics\<close>

text \<open>
  \<^verbatim>\<open>
  def recall_at_k(pred_list, test_graph, k):
      sum = 0.0
      test_users = 0
      for user in range(test_graph.num_nodes('user')):
          test_items_set = set(test_graph.successors(user, etype='user-item').cpu().numpy())
          pred_items_set = set(pred_list[user][:k])
          if len(test_items_set) != 0:
              sum += len(test_items_set & pred_items_set) / float(len(test_items_set))
              test_users += 1
      return sum / test_users
  \<close>
  The accumulator \<^verbatim>\<open>sum\<close> is a Python float and \<^verbatim>\<open>test_users\<close> a Python int, so the final
  division raises \<^verbatim>\<open>ZeroDivisionError\<close> when no user was counted.
\<close>

fun recall_loop ::
  "nat list list \<Rightarrow> hetero_graph \<Rightarrow> nat \<Rightarrow> nat list \<Rightarrow> real \<Rightarrow> nat \<Rightarrow> error + real \<times> nat" where
  "recall_loop pred_list test_graph k [] sum_acc test_users = Inr (sum_acc, test_users)"
| "recall_loop pred_list test_graph k (user # users) sum_acc test_users =
     (let test_items_set = set (successors test_graph user) in
      if length pred_list \<le> user then Inl IndexError
      else let pred_items_set = set (take k (pred_list ! user)) in
        if card test_items_set \<noteq> 0
        then recall_loop pred_list test_graph k users
               (sum_acc + real (card (test_items_set \<inter> pred_items_set)) / real (card test_items_set))
               (test_users + 1)
        else recall_loop pred_list test_graph k users sum_acc test_users)"

definition recall_at_k :: "nat list list \<Rightarrow> hetero_graph \<Rightarrow> nat \<Rightarrow> error + real" where
  "recall_at_k pred_list test_graph k =
     (case recall_loop pred_list test_graph k [0..<num_nodes_user test_graph] 0 0 of
        Inl e \<Rightarrow> Inl e
      | Inr (sum_acc, test_users) \<Rightarrow>
          if test_users = 0 then Inl ZeroDivisionError else Inr (sum_acc / real test_users))"

text \<open>
  \<^verbatim>\<open>
  def compute_DCG(l):
      l = np.array(l)
      if l.size:
          return np.sum(np.subtract(np.power(2, l), 1) / np.log2(np.arange(2, l.size + 2)))
      else:
          return 0.0
  \<close>
  The entries of \<open>l\<close> are the hits \<open>0\<close> and \<open>1\<close>; the division is elementwise between the
  gains and the discounts \<open>log2 2, log2 3, ...\<close>.
\<close>

definition compute_DCG :: "nat list \<Rightarrow> real" where
  "compute_DCG l =
     (if length l \<noteq> 0
      then sum_list (map2 (\<lambda>x d. (2 ^ x - 1) / log 2 d) l (map real [2..<length l + 2]))
      else 0)"

text \<open>
  \<^verbatim>\<open>
  def ndcg_at_k(pred_list, test_graph, k):
      ndcg = []
      for user in range(test_graph.num_nodes('user')):
          test_items_set = set(test_graph.successors(user, etype='user-item').cpu().numpy())
          pred_items_set = pred_list[user][:k]
          hit_list = [1 if i in pred_items_set else 0 for i in test_items_set]
          GT = len(test_items_set)
          if GT >= k:
              ideal_hit_list = [1] * k
          else:
              ideal_hit_list = [1] * GT + [0] * (k - GT)
          idcg = compute_DCG(ideal_hit_list)
          if idcg:
              ndcg.append(compute_DCG(hit_list) / idcg)
      return np.mean(ndcg)
  \<close>
  The comprehension walks the held-out set in the iteration order of a Python set, which
  the language does not fix: \<open>set_order\<close> maps the successor list to the list of its
  distinct elements in that order.
\<close>

fun ndcg_loop ::
  "(nat list \<Rightarrow> nat list) \<Rightarrow> nat list list \<Rightarrow> hetero_graph \<Rightarrow> nat \<Rightarrow> nat list \<Rightarrow> real list
     \<Rightarrow> error + real list" where
  "ndcg_loop set_order pred_list test_graph k [] ndcg = Inr ndcg"
| "ndcg_loop set_order pred_list test_graph k (user # users) ndcg =
     (let test_items_set = set_order (successors test_graph user) in
      if length pred_list \<le> user then Inl IndexError
      else let pred_items_set = take k (pred_list ! user);
               hit_list = map (\<lambda>i. if i \<in> set pred_items_set then 1 else 0) test_items_set;
               GT = card (set (successors test_graph user));
               ideal_hit_list = (if GT \<ge> k then replicate k 1
                                 else replicate GT 1 @ replicate (k - GT) 0);
               idcg = compute_DCG ideal_hit_list
           in if idcg \<noteq> 0
              then ndcg_loop set_order pred_list test_graph k users
                     (ndcg @ [compute_DCG hit_list / idcg])
              else ndcg_loop set_order pred_list test_graph k users ndcg)"

definition ndcg_at_k ::
  "(nat list \<Rightarrow> nat list) \<Rightarrow> nat list list \<Rightarrow> hetero_graph \<Rightarrow> nat \<Rightarrow> error + num" where
  "ndcg_at_k set_order pred_list test_graph k =
     (case ndcg_loop set_order pred_list test_graph k [0..<num_nodes_user test_graph] [] of
        Inl e \<Rightarrow> Inl e
      | Inr ndcg \<Rightarrow> Inr (np_mean ndcg))"

text \<open>
  The metric loop that ends \<^verbatim>\<open>_test_step\<close>:
  \<^verbatim>\<open>
      metric_dic = {}
      for m in self.metric:
          if m == 'recall':
              metric_k = recall_at_k(pred_list, test_graph, self.topk)
          elif m == 'ndcg':
              metric_k = ndcg_at_k(pred_list, test_graph, self.topk)
          else:
              raise NotImplementedError
          metric_dic[m] = metric_k
      return metric_dic
  \<close>
\<close>

fun metric_loop ::
  "(nat list \<Rightarrow> nat list) \<Rightarrow> nat list list \<Rightarrow> hetero_graph \<Rightarrow> nat \<Rightarrow> string list
     \<Rightarrow> (string \<rightharpoonup> num) \<Rightarrow> error + (string \<rightharpoonup> num)" where
  "metric_loop set_order pred_list test_graph k [] metric_dic = Inr metric_dic"
| "metric_loop set_order pred_list test_graph k (m # ms) metric_dic =
     (if m = ''recall''
      then (case recall_at_k pred_list test_graph k of
              Inl e \<Rightarrow> Inl e
            | Inr metric_k \<Rightarrow>
                metric_loop set_order pred_list test_graph k ms (metric_dic(m \<mapsto> Num metric_k)))
      else if m = ''ndcg''
      then (case ndcg_at_k set_order pred_list test_graph k of
              Inl e \<Rightarrow> Inl e
            | Inr metric_k \<Rightarrow>
                metric_loop set_order pred_list test_graph k ms (metric_dic(m \<mapsto> metric_k)))
      else Inl NotImplementedError)"

section \<open>The formulas of the specification\<close>

text \<open>
  The definitions of this section follow the words of the specification, not the code; the
  theorems compare the code with them.

  The discounted cumulative gain, with the indices \<open>1..n\<close> of the specification.
\<close>

definition DCG_formula :: "nat list \<Rightarrow> real" where
  "DCG_formula r = (\<Sum>i = 1..length r. (2 ^ (r ! (i - 1)) - 1) / log 2 (real i + 1))"

text \<open>
  Recall: the held-out set of a user, the recall of one user, the users that have a
  held-out item, and the arithmetic mean over exactly those users.
\<close>

definition heldout :: "hetero_graph \<Rightarrow> nat \<Rightarrow> nat set" where
  "heldout g u = set (successors g u)"

definition recall_u :: "nat list list \<Rightarrow> hetero_graph \<Rightarrow> nat \<Rightarrow> nat \<Rightarrow> real" where
  "recall_u pred_list g k u =
     real (card (set (take k (pred_list ! u)) \<inter> heldout g u)) / real (card (heldout g u))"

definition users_with_heldout :: "hetero_graph \<Rightarrow> nat set" where
  "users_with_heldout g = {u. u < num_nodes_user g \<and> heldout g u \<noteq> {}}"

definition mean_recall :: "nat list list \<Rightarrow> hetero_graph \<Rightarrow> nat \<Rightarrow> real" where
  "mean_recall pred_list g k =
     (\<Sum>u \<in> users_with_heldout g. recall_u pred_list g k u) / real (card (users_with_heldout g))"

text \<open>
  The loss: the mean over the negative edges \<open>j\<close> of \<open>- log (sigmoid (p' j - n j))\<close>, where the
  positive score \<open>p' j\<close> aligned with negative edge \<open>j\<close> is that of positive edge \<open>j div k\<close>
  (each positive score repeated \<open>k\<close> times); and the regularisation, the sum over the node
  types of the mean of the squared entries of the type's matrix.
\<close>

definition bpr_formula :: "real list \<Rightarrow> real list \<Rightarrow> nat \<Rightarrow> num" where
  "bpr_formula p n k =
     th_mean (map (\<lambda>j. - ln (sigmoid (p ! (j div k) - n ! j))) [0..<length n])"

definition mean_square :: "real list list \<Rightarrow> real" where
  "mean_square e = (\<Sum>v \<leftarrow> concat e. v ^ 2) / real (length (concat e))"

definition reg_formula :: "embedding \<Rightarrow> num" where
  "reg_formula x =
     (if \<exists>e \<in> set (map snd x). concat e = [] then NaN
      else Num (\<Sum>e \<leftarrow> map snd x. mean_square e))"

text \<open>The sum inside \<open>compute_DCG\<close> as a recursion on the list, for evaluation.\<close>

fun dcg_from :: "nat \<Rightarrow> nat list \<Rightarrow> real" where
  "dcg_from m [] = 0"
| "dcg_from m (x # xs) = (2 ^ x - 1) / log 2 (real m) + dcg_from (Suc m) xs"

section \<open>Properties of the discounted cumulative gain\<close>

lemma map2_arange:
  "map2 f l (map g [m..<length l + m]) = map (\<lambda>i. f (l ! i) (g (i + m))) [0..<length l]"
  by (rule nth_equalityI) (simp_all add: add.commute)

lemma compute_DCG_sum:
  "compute_DCG l = (\<Sum>i = 0..<length l. (2 ^ (l ! i) - 1) / log 2 (real (i + 2)))"
proof (cases "l = []")
  case True
  then show ?thesis by (simp add: compute_DCG_def)
next
  case False
  then show ?thesis
    unfolding compute_DCG_def map2_arange
    by (simp add: interv_sum_list_conv_sum_set_nat)
qed

lemma compute_DCG_eq_formula: "compute_DCG l = DCG_formula l"
  unfolding compute_DCG_sum DCG_formula_def
  by (rule sum.reindex_bij_witness[where i = "\<lambda>i. i - 1" and j = Suc]) (auto simp: algebra_simps)

lemma log2_3_lower: "84 / 53 < log 2 (3::real)"
proof -
  have "(2::real) ^ 84 < 3 ^ 53" by simp
  then have "log 2 ((2::real) ^ 84) < log 2 (3 ^ 53)"
    by (subst log_less_cancel_iff) simp_all
  then have "84 * log 2 (2::real) < 53 * log 2 (3::real)"
    by (simp only: log_nat_power zero_less_numeral of_nat_numeral)
  then have "84 < 53 * log 2 (3::real)" by simp
  then show ?thesis by (simp add: field_simps)
qed

lemma log2_3_upper: "log 2 (3::real) < 149 / 94"
proof -
  have "(3::real) ^ 94 < 2 ^ 149" by simp
  then have "log 2 ((3::real) ^ 94) < log 2 (2 ^ 149)"
    by (subst log_less_cancel_iff) simp_all
  then have "94 * log 2 (3::real) < 149 * log 2 (2::real)"
    by (simp only: log_nat_power zero_less_numeral of_nat_numeral)
  then have "94 * log 2 (3::real) < 149" by simp
  then show ?thesis by (simp add: field_simps)
qed

lemma compute_DCG_110: "compute_DCG [1, 1, 0] = 1 / log 2 2 + 1 / log 2 3 + 0 / log 2 4"
  by (simp add: compute_DCG_def upt_conv_Cons)

lemma compute_DCG_110_bounds: "1.6308 < compute_DCG [1, 1, 0] \<and> compute_DCG [1, 1, 0] < 1.6310"
proof -
  have pos: "0 < log 2 (3::real)" by simp
  have "1 / log 2 (3::real) < 53 / 84"
    using log2_3_lower pos by (simp add: field_simps)
  moreover have "94 / 149 < 1 / log 2 (3::real)"
    using log2_3_upper pos by (simp add: field_simps)
  ultimately show ?thesis unfolding compute_DCG_110 by simp
qed

text \<open>
  Claim C5. \<open>compute_DCG\<close> is the binary-gain discounted sum
  \<open>DCG(r) = \<Sum>\<^bsub>i=1..n\<^esub> (2^r\<^sub>i - 1) / log2 (i + 1)\<close> for every relevance list \<open>r\<close>; on \<open>[1,1,0]\<close> it
  is \<open>1/log2 2 + 1/log2 3 + 0/log2 4\<close>, a number between 1.6308 and 1.6310, and on the empty
  list it is \<open>0\<close>.
\<close>

theorem compute_DCG_matches_formula:
  "compute_DCG r = DCG_formula r
   \<and> compute_DCG [1, 1, 0] = 1 / log 2 2 + 1 / log 2 3 + 0 / log 2 4
   \<and> 1.6308 < compute_DCG [1, 1, 0] \<and> compute_DCG [1, 1, 0] < 1.6310
   \<and> compute_DCG [] = 0"
  using compute_DCG_eq_formula [of r] compute_DCG_110 compute_DCG_110_bounds
  by (simp add: compute_DCG_def)

lemma dcg_from_sum_list:
  "sum_list (map2 (\<lambda>x d. (2 ^ x - 1) / log 2 d) l (map real [m..<length l + m])) = dcg_from m l"
proof (induction l arbitrary: m)
  case Nil
  then show ?case by simp
next
  case (Cons x xs)
  have "m < length (x # xs) + m" by simp
  then have "[m..<length (x # xs) + m] = m # [Suc m..<length (x # xs) + m]"
    by (rule upt_conv_Cons)
  moreover have "length (x # xs) + m = length xs + Suc m" by simp
  ultimately have "[m..<length (x # xs) + m] = m # [Suc m..<length xs + Suc m]" by simp
  then show ?case using Cons.IH[of "Suc m"] by (simp del: upt_Suc)
qed

lemma compute_DCG_unroll: "compute_DCG l = dcg_from 2 l"
  unfolding compute_DCG_def dcg_from_sum_list by (cases l) simp_all

lemma compute_DCG_zeros: "compute_DCG (replicate n 0) = 0"
  by (simp add: compute_DCG_sum)

lemma compute_DCG_Nil: "compute_DCG [] = 0"
  by (simp add: compute_DCG_def)

section \<open>Recall at K\<close>

lemma recall_loop_eq:
  assumes "\<forall>u \<in> set us. u < length pred_list"
  shows "recall_loop pred_list g k us sum_acc n
     = Inr (sum_acc + sum_list (map (recall_u pred_list g k) (filter (\<lambda>u. heldout g u \<noteq> {}) us)),
            n + length (filter (\<lambda>u. heldout g u \<noteq> {}) us))"
  using assms
proof (induction us arbitrary: sum_acc n)
  case Nil
  then show ?case by simp
next
  case (Cons u us)
  then have u: "u < length pred_list" and rest: "\<forall>v \<in> set us. v < length pred_list" by simp_all
  show ?case
  proof (cases "heldout g u = {}")
    case True
    then show ?thesis using u Cons.IH[OF rest] by (simp add: heldout_def)
  next
    case False
    then have "0 < card (set (successors g u))" by (simp add: heldout_def card_gt_0_iff)
    then show ?thesis
      using u False Cons.IH[OF rest]
      by (simp add: heldout_def recall_u_def Int_commute add.assoc Let_def)
  qed
qed

lemma filter_users_with_heldout:
  "set (filter (\<lambda>u. heldout g u \<noteq> {}) [0..<num_nodes_user g]) = users_with_heldout g"
  by (auto simp: users_with_heldout_def)

text \<open>
  Claim C6. When the prediction list has a row for every user of the evaluation graph and
  some user has a held-out item, \<open>recall_at_k\<close> returns the arithmetic mean, over the users
  with a non-empty held-out set only, of \<open>|topK(u) \<inter> heldout(u)| / |heldout(u)|\<close>. A user
  with an empty held-out set adds nothing to the sum and is not counted in the divisor.
\<close>

theorem recall_at_k_is_mean_recall:
  assumes "num_nodes_user g \<le> length pred_list" and "users_with_heldout g \<noteq> {}"
  shows "recall_at_k pred_list g k = Inr (mean_recall pred_list g k)"
proof -
  define ts where "ts = filter (\<lambda>u. heldout g u \<noteq> {}) [0..<num_nodes_user g]"
  have d: "distinct ts" and s: "set ts = users_with_heldout g"
    using filter_users_with_heldout by (simp_all add: ts_def)
  have ne: "length ts \<noteq> 0" using s assms(2) by auto
  have "\<forall>u \<in> set [0..<num_nodes_user g]. u < length pred_list" using assms(1) by simp
  from recall_loop_eq[OF this, of g k 0 0]
  have "recall_at_k pred_list g k = Inr (sum_list (map (recall_u pred_list g k) ts) / real (length ts))"
    using ne by (simp add: recall_at_k_def ts_def)
  moreover have "sum_list (map (recall_u pred_list g k) ts) = (\<Sum>u \<in> users_with_heldout g. recall_u pred_list g k u)"
    using d s by (simp add: sum_list_distinct_conv_sum_set)
  moreover have "length ts = card (users_with_heldout g)"
    using d s by (metis distinct_card)
  ultimately show ?thesis by (simp add: mean_recall_def)
qed

text \<open>
  An instance: three users, of whom the second has no held-out item; the recalls \<open>1/2\<close>
  and \<open>1\<close> of the other two average to \<open>3/4\<close> (and not to \<open>1/2\<close>, as they would over three
  users).
\<close>

theorem recall_at_k_is_mean_recall_witness:
  "num_nodes_user \<lparr>num_nodes_user = 3, num_nodes_item = 4, ui_edges = [(0, 0), (0, 3), (2, 1)]\<rparr>
      \<le> length [[1, 0], [2, 3], [1, 2 :: nat]]
   \<and> users_with_heldout \<lparr>num_nodes_user = 3, num_nodes_item = 4, ui_edges = [(0, 0), (0, 3), (2, 1)]\<rparr> \<noteq> {}
   \<and> recall_at_k [[1, 0], [2, 3], [1, 2]]
        \<lparr>num_nodes_user = 3, num_nodes_item = 4, ui_edges = [(0, 0), (0, 3), (2, 1)]\<rparr> 2
       = Inr (mean_recall [[1, 0], [2, 3], [1, 2]]
        \<lparr>num_nodes_user = 3, num_nodes_item = 4, ui_edges = [(0, 0), (0, 3), (2, 1)]\<rparr> 2)
   \<and> recall_at_k [[1, 0], [2, 3], [1, 2]]
        \<lparr>num_nodes_user = 3, num_nodes_item = 4, ui_edges = [(0, 0), (0, 3), (2, 1)]\<rparr> 2
       = Inr (3 / 4)"
proof -
  define g where "g = \<lparr>num_nodes_user = 3, num_nodes_item = 4, ui_edges = [(0, 0), (0, 3), (2, 1 :: nat)]\<rparr>"
  have h1: "num_nodes_user g \<le> length [[1, 0], [2, 3], [1, 2 :: nat]]" by (simp add: g_def)
  have "0 \<in> users_with_heldout g"
    by (simp add: users_with_heldout_def heldout_def successors_def g_def)
  then have h2: "users_with_heldout g \<noteq> {}" by blast
  have v: "recall_at_k [[1, 0], [2, 3], [1, 2]] g 2 = Inr (3 / 4)"
    by (simp add: recall_at_k_def successors_def g_def upt_conv_Cons)
  show ?thesis
    using recall_at_k_is_mean_recall[OF h1 h2, of 2] h1 h2 v unfolding g_def by simp
qed

section \<open>Empty held-out sets\<close>

lemma ndcg_loop_empty_heldout:
  assumes "\<forall>u \<in> set us. successors g u = [] \<and> u < length pred_list"
  shows "ndcg_loop set_order pred_list g k us ndcg = Inr ndcg"
  using assms
proof (induction us)
  case Nil
  then show ?case by simp
next
  case (Cons u us)
  then have u: "successors g u = []" "u < length pred_list" by simp_all
  show ?case using Cons u by (simp add: Let_def compute_DCG_zeros compute_DCG_Nil)
qed

text \<open>
  Counterexample to C4 as stated, which says that \<open>recall_at_k\<close> and \<open>ndcg_at_k\<close> both
  fail with an error when no user has a held-out item. \<open>ndcg_at_k\<close> does not: on one user without held-out items it
  returns the not-a-number of \<^verbatim>\<open>np.mean([])\<close>.
\<close>

theorem ndcg_at_k_returns_nan:
  "ndcg_at_k remdups [[0]] \<lparr>num_nodes_user = 1, num_nodes_item = 1, ui_edges = []\<rparr> 1 = Inr NaN"
  by (simp add: ndcg_at_k_def successors_def np_mean_def compute_DCG_unroll)

text \<open>
  Claim C4, as the code has it. When no user of the evaluation graph has a held-out item
  (and the prediction list has a row for every user), \<open>recall_at_k\<close> fails with
  \<^verbatim>\<open>ZeroDivisionError\<close>; \<open>ndcg_at_k\<close> raises nothing and returns not-a-number, the mean of
  an empty list; neither returns \<open>0\<close>. The metric loop of the evaluation step computes the
  recall first, so the step as a whole fails with \<^verbatim>\<open>ZeroDivisionError\<close>.
\<close>

theorem empty_heldout_metrics:
  assumes "\<forall>u < num_nodes_user g. successors g u = []" and "num_nodes_user g \<le> length pred_list"
  shows "recall_at_k pred_list g k = Inl ZeroDivisionError
         \<and> ndcg_at_k set_order pred_list g k = Inr NaN
         \<and> metric_loop set_order pred_list g k [''recall'', ''ndcg''] Map.empty = Inl ZeroDivisionError"
proof -
  have rng: "\<forall>u \<in> set [0..<num_nodes_user g]. u < length pred_list" using assms(2) by simp
  have "filter (\<lambda>u. heldout g u \<noteq> {}) [0..<num_nodes_user g] = []"
    using assms(1) by (simp add: heldout_def filter_empty_conv)
  then have r: "recall_at_k pred_list g k = Inl ZeroDivisionError"
    using recall_loop_eq[OF rng, of g k 0 0] by (simp add: recall_at_k_def)
  have "\<forall>u \<in> set [0..<num_nodes_user g]. successors g u = [] \<and> u < length pred_list"
    using assms by simp
  from ndcg_loop_empty_heldout[OF this]
  have n: "ndcg_at_k set_order pred_list g k = Inr NaN"
    by (simp add: ndcg_at_k_def np_mean_def)
  from r n show ?thesis by simp
qed

theorem empty_heldout_metrics_witness:
  "recall_at_k [[0, 1], [2, 1]] \<lparr>num_nodes_user = 2, num_nodes_item = 3, ui_edges = []\<rparr> 2
        = Inl ZeroDivisionError
   \<and> ndcg_at_k remdups [[0, 1], [2, 1]] \<lparr>num_nodes_user = 2, num_nodes_item = 3, ui_edges = []\<rparr> 2
        = Inr NaN
   \<and> metric_loop remdups [[0, 1], [2, 1]] \<lparr>num_nodes_user = 2, num_nodes_item = 3, ui_edges = []\<rparr> 2
        [''recall'', ''ndcg''] Map.empty = Inl ZeroDivisionError"
proof -
  have h1: "\<forall>u < num_nodes_user \<lparr>num_nodes_user = 2, num_nodes_item = 3, ui_edges = []\<rparr>.
       successors \<lparr>num_nodes_user = 2, num_nodes_item = 3, ui_edges = []\<rparr> u = []"
    by (simp add: successors_def)
  have h2: "num_nodes_user \<lparr>num_nodes_user = 2, num_nodes_item = 3, ui_edges = []\<rparr>
              \<le> length [[0, 1], [2, 1 :: nat]]"
    by simp
  show ?thesis by (rule empty_heldout_metrics[OF h1 h2])
qed

section \<open>NDCG at K and the order of the prediction list\<close>

lemma ndcg_loop_membership:
  assumes "length pred' = length pred"
    and "\<forall>u < length pred. set (take k (pred' ! u)) = set (take k (pred ! u))"
  shows "ndcg_loop set_order pred' g k us ndcg = ndcg_loop set_order pred g k us ndcg"
proof (induction us arbitrary: ndcg)
  case Nil
  then show ?case by simp
next
  case (Cons u us)
  show ?case
  proof (cases "u < length pred")
    case True
    then have "set (take k (pred' ! u)) = set (take k (pred ! u))" using assms(2) by simp
    then show ?thesis using True assms(1) Cons.IH by (simp add: Let_def)
  next
    case False
    then show ?thesis using assms(1) by simp
  qed
qed

text \<open>
  Claim C9. \<open>ndcg_at_k\<close> reads the first \<open>k\<close> entries of a user's prediction row only
  through membership tests. Two prediction lists whose rows have the same set of items
  among their first \<open>k\<close> entries get the same value; in particular a permutation of the
  first \<open>k\<close> entries of every row changes nothing.
\<close>

theorem ndcg_at_k_membership_only:
  assumes "length pred' = length pred"
  shows "((\<forall>u < length pred. set (take k (pred' ! u)) = set (take k (pred ! u)))
            \<longrightarrow> ndcg_at_k set_order pred' g k = ndcg_at_k set_order pred g k)
       \<and> ((\<forall>u < length pred. mset (take k (pred' ! u)) = mset (take k (pred ! u)))
            \<longrightarrow> ndcg_at_k set_order pred' g k = ndcg_at_k set_order pred g k)"
proof -
  have a: "ndcg_at_k set_order pred' g k = ndcg_at_k set_order pred g k"
    if "\<forall>u < length pred. set (take k (pred' ! u)) = set (take k (pred ! u))"
    using ndcg_loop_membership[OF assms that] by (simp add: ndcg_at_k_def)
  have "\<forall>u < length pred. set (take k (pred' ! u)) = set (take k (pred ! u))"
    if "\<forall>u < length pred. mset (take k (pred' ! u)) = mset (take k (pred ! u))"
    using that by (metis mset_eq_setD)
  with a show ?thesis by blast
qed

theorem ndcg_at_k_membership_only_witness:
  "ndcg_at_k remdups [[2, 0, 3], [1, 3, 0]]
        \<lparr>num_nodes_user = 2, num_nodes_item = 4, ui_edges = [(0, 0), (0, 1), (1, 3)]\<rparr> 2
     = ndcg_at_k remdups [[0, 2, 1], [3, 1, 2]]
        \<lparr>num_nodes_user = 2, num_nodes_item = 4, ui_edges = [(0, 0), (0, 1), (1, 3)]\<rparr> 2"
proof -
  have h1: "length [[2, 0, 3], [1, 3, 0 :: nat]] = length [[0, 2, 1], [3, 1, 2 :: nat]]" by simp
  have h2: "\<forall>u < length [[0, 2, 1], [3, 1, 2 :: nat]].
         mset (take 2 ([[2, 0, 3], [1, 3, 0 :: nat]] ! u)) = mset (take 2 ([[0, 2, 1], [3, 1, 2 :: nat]] ! u))"
    by (simp add: less_Suc_eq numeral_2_eq_2 all_conj_distrib)
  show ?thesis
    using ndcg_at_k_membership_only[OF h1, of 2 remdups
        "\<lparr>num_nodes_user = 2, num_nodes_item = 4, ui_edges = [(0, 0), (0, 1), (1, 3)]\<rparr>"] h2
    by blast
qed

text \<open>
  When every held-out item of every user is among the first \<open>k\<close> entries of the user's
  row, the value is \<open>1\<close>, wherever in the row the items stand (\<open>set_order\<close> is any
  enumeration of a set without repetition).
\<close>

lemma dcg_from_zeros: "dcg_from m (replicate n 0) = 0"
  by (induction n arbitrary: m) simp_all

lemma dcg_from_append_zeros: "dcg_from m (xs @ replicate n 0) = dcg_from m xs"
  by (induction xs arbitrary: m) (simp_all add: dcg_from_zeros)

lemma dcg_from_nonneg: "2 \<le> m \<Longrightarrow> 0 \<le> dcg_from m xs"
proof (induction xs arbitrary: m)
  case Nil
  then show ?case by simp
next
  case (Cons x xs)
  have "0 \<le> log 2 (real m)" using Cons.prems by simp
  moreover have "(1::real) \<le> 2 ^ x" by simp
  ultimately have "0 \<le> (2 ^ x - 1) / log 2 (real m)" by simp
  moreover have "0 \<le> dcg_from (Suc m) xs" using Cons.prems by (intro Cons.IH) simp
  ultimately show ?case by simp
qed

lemma dcg_from_ones_pos:
  assumes "2 \<le> m" "0 < n"
  shows "0 < dcg_from m (replicate n 1)"
proof -
  from assms(2) obtain n' where n: "n = Suc n'" by (cases n) simp_all
  have "1 < real m" using assms(1) by simp
  then have "0 < log 2 (real m)" by simp
  then have a: "0 < 1 / log 2 (real m)" by simp
  have b: "0 \<le> dcg_from (Suc m) (replicate n' (Suc 0))"
    using assms(1) by (intro dcg_from_nonneg) simp
  from a b have "0 < 1 / log 2 (real m) + dcg_from (Suc m) (replicate n' (Suc 0))"
    by (rule add_pos_nonneg)
  then show ?thesis by (simp add: n)
qed

lemma ndcg_loop_all_hits:
  assumes so: "\<And>xs. distinct (set_order xs) \<and> set (set_order xs) = set xs"
    and rows: "\<forall>u \<in> set us. u < length pred_list
                 \<and> heldout g u \<subseteq> set (take k (pred_list ! u)) \<and> card (heldout g u) \<le> k"
  shows "ndcg_loop set_order pred_list g k us ndcg
           = Inr (ndcg @ replicate (length (filter (\<lambda>u. heldout g u \<noteq> {}) us)) 1)"
  using rows
proof (induction us arbitrary: ndcg)
  case Nil
  then show ?case by simp
next
  case (Cons u us)
  define H where "H = set (successors g u)"
  define ts where "ts = set_order (successors g u)"
  define GT where "GT = card H"
  have u: "u < length pred_list" "H \<subseteq> set (take k (pred_list ! u))" "GT \<le> k"
    using Cons.prems by (simp_all add: heldout_def H_def GT_def)
  have rest: "\<forall>v \<in> set us. v < length pred_list
                 \<and> heldout g v \<subseteq> set (take k (pred_list ! v)) \<and> card (heldout g v) \<le> k"
    using Cons.prems by simp
  have ts: "distinct ts" "set ts = H" using so by (simp_all add: ts_def H_def)
  then have lts: "length ts = GT" by (simp add: GT_def distinct_card[symmetric])
  have "map (\<lambda>i. if i \<in> set (take k (pred_list ! u)) then 1 else (0::nat)) ts = map (\<lambda>i. 1) ts"
    using u(2) ts(2) by (intro map_cong) auto
  then have hit: "map (\<lambda>i. if i \<in> set (take k (pred_list ! u)) then 1 else (0::nat)) ts = replicate GT 1"
    by (simp add: map_replicate_const lts)
  have ideal: "compute_DCG (if GT \<ge> k then replicate k 1 else replicate GT 1 @ replicate (k - GT) 0)
                 = dcg_from 2 (replicate GT 1)"
    using u(3) by (auto simp: compute_DCG_unroll dcg_from_append_zeros)
  show ?case
  proof (cases "GT = 0")
    case True
    then have "heldout g u = {}" by (simp add: GT_def H_def heldout_def)
    moreover have "dcg_from 2 (replicate GT 1) = 0" using True by simp
    ultimately show ?thesis
      using u(1) ideal Cons.IH[OF rest]
      by (simp add: Let_def flip: H_def GT_def ts_def)
  next
    case False
    then have ne: "heldout g u \<noteq> {}" by (auto simp: GT_def H_def heldout_def)
    have pos: "0 < dcg_from 2 (replicate GT 1)" using False by (intro dcg_from_ones_pos) simp_all
    have "ndcg_loop set_order pred_list g k (u # us) ndcg
            = ndcg_loop set_order pred_list g k us (ndcg @ [1])"
      using u(1) ideal pos hit
      by (simp add: Let_def compute_DCG_unroll flip: H_def GT_def ts_def)
    then show ?thesis using ne Cons.IH[OF rest, of "ndcg @ [1]"]
      by (simp add: replicate_app_Cons_same)
  qed
qed

lemma ndcg_at_k_all_hits:
  assumes "\<And>xs. distinct (set_order xs) \<and> set (set_order xs) = set xs"
    and "num_nodes_user g \<le> length pred_list"
    and "\<forall>u < num_nodes_user g. heldout g u \<subseteq> set (take k (pred_list ! u)) \<and> card (heldout g u) \<le> k"
    and "users_with_heldout g \<noteq> {}"
  shows "ndcg_at_k set_order pred_list g k = Inr (Num 1)"
proof -
  define n where "n = length (filter (\<lambda>u. heldout g u \<noteq> {}) [0..<num_nodes_user g])"
  have "set (filter (\<lambda>u. heldout g u \<noteq> {}) [0..<num_nodes_user g]) \<noteq> {}"
    unfolding filter_users_with_heldout by (rule assms(4))
  then have "filter (\<lambda>u. heldout g u \<noteq> {}) [0..<num_nodes_user g] \<noteq> []"
    by (simp only: set_empty not_False_eq_True)
  then have n: "0 < n" by (simp add: n_def)
  have "\<forall>u \<in> set [0..<num_nodes_user g]. u < length pred_list
                 \<and> heldout g u \<subseteq> set (take k (pred_list ! u)) \<and> card (heldout g u) \<le> k"
    using assms(2,3) by simp
  from ndcg_loop_all_hits[OF assms(1) this, of "[]"]
  have "ndcg_at_k set_order pred_list g k = Inr (np_mean (replicate n 1))"
    by (simp add: ndcg_at_k_def n_def)
  also have "np_mean (replicate n 1) = Num 1"
    using n by (simp add: np_mean_def sum_list_replicate)
  finally show ?thesis .
qed

text \<open>
  Claim C2 (the code does not meet its second half). A list that holds all held-out items
  gets NDCG \<open>1\<close>, as the claim says of a perfectly ranked list; but the claim also asks for
  a value strictly below \<open>1\<close> when the held-out items stand in reverse-optimal order, and
  there the code returns \<open>1\<close> as well. One user whose only held-out item \<open>0\<close> is ranked
  last of \<open>K = 2\<close>, behind item \<open>1\<close>, gets \<open>hit_list = [1]\<close>, \<open>ideal_hit_list = [1, 0]\<close>
  and the quotient \<open>1\<close>; a rank-discounted NDCG is \<open>1 / log2 3\<close> there.
\<close>

theorem ndcg_at_k_ignores_rank:
  "ndcg_at_k remdups [[1, 0]] \<lparr>num_nodes_user = 1, num_nodes_item = 2, ui_edges = [(0, 0)]\<rparr> 2
     = Inr (Num 1)"
  by (simp add: ndcg_at_k_def successors_def np_mean_def compute_DCG_unroll numeral_2_eq_2)

section \<open>The top-K lists\<close>

subsection \<open>Masking\<close>

lemma mask_train_shape:
  "mask_train m es = Inr m' \<Longrightarrow>
     length m' = length m \<and> (\<forall>u < length m. length (m' ! u) = length (m ! u))"
proof (induction m es arbitrary: m' rule: mask_train.induct)
  case (1 m)
  then show ?case by simp
next
  case (2 m u i es)
  from "2.prems" have ok: "u < length m" "i < length (m ! u)"
    and rec: "mask_train (m[u := (m ! u)[i := None]]) es = Inr m'"
    by (auto split: if_splits)
  from "2.IH"[OF _ rec] ok show ?case
    by (auto simp: nth_list_update)
qed

lemma mask_train_cell:
  "mask_train m es = Inr m' \<Longrightarrow> u < length m \<Longrightarrow> i < length (m ! u) \<Longrightarrow>
     m' ! u ! i = (if (u, i) \<in> set es then None else m ! u ! i)"
proof (induction m es arbitrary: m' rule: mask_train.induct)
  case (1 m)
  then show ?case by simp
next
  case (2 m v j es)
  from "2.prems" have ok: "v < length m" "j < length (m ! v)"
    and rec: "mask_train (m[v := (m ! v)[j := None]]) es = Inr m'"
    by (auto split: if_splits)
  have "m' ! u ! i = (if (u, i) \<in> set es then None else (m[v := (m ! v)[j := None]]) ! u ! i)"
    using "2.IH"[OF _ rec] ok "2.prems"(2,3) by (auto simp: nth_list_update)
  then show ?case
    using ok "2.prems"(2,3) by (auto simp: nth_list_update)
qed

lemma mask_train_succeeds:
  "\<forall>(u, i) \<in> set es. u < length m \<and> i < length (m ! u) \<Longrightarrow> \<exists>m'. mask_train m es = Inr m'"
proof (induction m es rule: mask_train.induct)
  case (1 m)
  then show ?case by simp
next
  case (2 m u i es)
  then have ok: "u < length m" "i < length (m ! u)" by auto
  have "\<forall>(a, b) \<in> set es. a < length (m[u := (m ! u)[i := None]])
          \<and> b < length ((m[u := (m ! u)[i := None]]) ! a)"
    using "2.prems" by (auto simp: nth_list_update)
  with "2.IH" ok show ?case by simp
qed

lemma reshape_cell:
  assumes r: "reshape xs U I = Inr m"
  shows "length m = U \<and> (\<forall>u < U. length (m ! u) = I \<and> (\<forall>i < I. m ! u ! i = xs ! (u * I + i)))"
proof -
  from r have len: "length xs = U * I" and m: "m = map (\<lambda>u. take I (drop (u * I) xs)) [0..<U]"
    by (auto simp: reshape_def split: if_splits)
  have room: "I \<le> U * I - u * I" if "u < U" for u
  proof -
    from that have "1 * I \<le> (U - u) * I" by (intro mult_le_mono1) simp
    then show ?thesis by (simp add: diff_mult_distrib)
  qed
  have "length (m ! u) = I \<and> (\<forall>i < I. m ! u ! i = xs ! (u * I + i))" if "u < U" for u
  proof -
    from that have mu: "m ! u = take I (drop (u * I) xs)" by (simp add: m)
    have l: "length (m ! u) = I" using room[OF that] len by (simp add: mu min_def)
    have "m ! u ! i = xs ! (u * I + i)" if "i < I" for i
    proof -
      have "u * I + i \<le> length xs" using room[OF \<open>u < U\<close>] that len by linarith
      then show ?thesis using that by (simp add: mu)
    qed
    with l show ?thesis by blast
  qed
  moreover have "length m = U" by (simp add: m)
  ultimately show ?thesis by blast
qed

lemma masked_score_matrix_cell:
  assumes "masked_score_matrix scores U I train = Inr sm"
  shows "length sm = U"
    and "u < U \<Longrightarrow> length (sm ! u) = I"
    and "u < U \<Longrightarrow> i < I \<Longrightarrow>
           sm ! u ! i = (if (u, i) \<in> set train then None else scores ! (u * I + i))"
proof -
  from assms obtain m where m: "reshape scores U I = Inr m"
    and sm: "mask_train m train = Inr sm"
    by (auto simp: masked_score_matrix_def split: sum.splits)
  note r = reshape_cell[OF m]
  note sh = mask_train_shape[OF sm]
  show "length sm = U" using sh r by simp
  show "length (sm ! u) = I" if "u < U" using sh r that by simp
  show "sm ! u ! i = (if (u, i) \<in> set train then None else scores ! (u * I + i))"
    if "u < U" "i < I"
    using mask_train_cell[OF sm, of u i] r that by simp
qed

lemma masked_score_matrix_succeeds:
  assumes "length scores = U * I" "\<forall>(u, i) \<in> set train. u < U \<and> i < I"
  shows "\<exists>sm. masked_score_matrix scores U I train = Inr sm"
proof -
  from assms(1) obtain m where m: "reshape scores U I = Inr m"
    by (simp add: reshape_def)
  note r = reshape_cell[OF m]
  have "\<forall>(u, i) \<in> set train. u < length m \<and> i < length (m ! u)"
    using assms(2) r by auto
  from mask_train_succeeds[OF this] show ?thesis
    by (simp add: masked_score_matrix_def m)
qed

subsection \<open>One row\<close>

lemma mset_map_nth_perm:
  assumes "mset p = mset [0..<length xs]"
  shows "mset (map (\<lambda>j. xs ! j) p) = mset xs"
proof -
  have "mset (map (\<lambda>j. xs ! j) p) = image_mset (\<lambda>j. xs ! j) (mset p)" by simp
  also have "\<dots> = mset (map (\<lambda>j. xs ! j) [0..<length xs])" using assms by simp
  also have "\<dots> = mset xs" by (simp add: map_nth)
  finally show ?thesis .
qed

lemma perm_upt_facts:
  assumes "mset p = mset [0..<n]"
  shows "length p = n" "distinct p" "set p = {0..<n}"
proof -
  show "length p = n" using assms by (metis length_upt mset_eq_length diff_zero)
  show "distinct p" using assms by (metis distinct_upt mset_eq_imp_distinct_iff)
  show "set p = {0..<n}" using assms by (metis mset_eq_setD set_upt)
qed

lemma in_set_drop_nth:
  "x \<in> set (drop n xs) \<longleftrightarrow> (\<exists>b. n \<le> b \<and> b < length xs \<and> x = xs ! b)"
proof
  assume "x \<in> set (drop n xs)"
  then obtain c where c: "c < length (drop n xs)" "x = drop n xs ! c"
    by (auto simp: in_set_conv_nth)
  then have "n \<le> n + c" "n + c < length xs" "x = xs ! (n + c)" by auto
  then show "\<exists>b. n \<le> b \<and> b < length xs \<and> x = xs ! b" by blast
next
  assume "\<exists>b. n \<le> b \<and> b < length xs \<and> x = xs ! b"
  then obtain b where b: "n \<le> b" "b < length xs" "x = xs ! b" by blast
  then have "b - n < length (drop n xs)" "drop n xs ! (b - n) = x" by auto
  then show "x \<in> set (drop n xs)" by (metis nth_mem)
qed

lemma topk_row_mset:
  assumes "argsort_contract as"
  shows "mset (topk_row ap as row K) = mset (drop (length row - K) (ap row (length row - K)))"
proof -
  define ind where "ind = drop (length row - K) (ap row (length row - K))"
  define arr where "arr = map (\<lambda>j. row ! j) ind"
  have "argsort_ok arr (as arr)" using assms by (simp add: argsort_contract_def)
  then have "mset (as arr) = mset [0..<length ind]" by (simp add: argsort_ok_def arr_def)
  then have "mset (rev (as arr)) = mset [0..<length ind]" by simp
  then have "mset (map (\<lambda>j. ind ! j) (rev (as arr))) = mset ind" by (rule mset_map_nth_perm)
  then show ?thesis by (simp add: topk_row_def ind_def arr_def Let_def)
qed

lemma ap_perm:
  assumes "argpartition_contract ap" "0 < K" "K \<le> length row"
  shows "mset (ap row (length row - K)) = mset [0..<length row]"
  using assms by (simp add: argpartition_contract_def argpartition_ok_def)

lemma topk_row_length:
  assumes "argpartition_contract ap" "argsort_contract as" "0 < K" "K \<le> length row"
  shows "length (topk_row ap as row K) = K"
proof -
  have "length (topk_row ap as row K) = length (drop (length row - K) (ap row (length row - K)))"
    using topk_row_mset[OF assms(2)] by (rule mset_eq_length)
  then show ?thesis using perm_upt_facts(1)[OF ap_perm[OF assms(1,3,4)]] assms(3,4) by simp
qed

lemma topk_row_distinct:
  assumes "argpartition_contract ap" "argsort_contract as" "0 < K" "K \<le> length row"
  shows "distinct (topk_row ap as row K)"
proof -
  have "distinct (drop (length row - K) (ap row (length row - K)))"
    using perm_upt_facts(2)[OF ap_perm[OF assms(1,3,4)]] by simp
  then show ?thesis using topk_row_mset[OF assms(2)] by (metis mset_eq_imp_distinct_iff)
qed

lemma topk_row_set:
  assumes "argsort_contract as"
  shows "set (topk_row ap as row K) = set (drop (length row - K) (ap row (length row - K)))"
  using topk_row_mset[OF assms] by (rule mset_eq_setD)

lemma topk_row_in_range:
  assumes "argpartition_contract ap" "argsort_contract as" "0 < K" "K \<le> length row"
  shows "set (topk_row ap as row K) \<subseteq> {0..<length row}"
proof -
  have "set (drop (length row - K) (ap row (length row - K))) \<subseteq> set (ap row (length row - K))"
    by (rule set_drop_subset)
  then show ?thesis
    using perm_upt_facts(3)[OF ap_perm[OF assms(1,3,4)]] topk_row_set[OF assms(2)] by simp
qed



lemma topk_row_dominates:
  assumes ap: "argpartition_contract ap" and as: "argsort_contract as"
    and K: "0 < K" "K \<le> length row"
    and i: "i < length row" "i \<notin> set (topk_row ap as row K)"
    and j: "j \<in> set (topk_row ap as row K)"
  shows "row ! i \<le> row ! j"
proof -
  define kth where "kth = length row - K"
  define p where "p = ap row kth"
  have kth: "kth < length row" using K by (simp add: kth_def)
  have ok: "argpartition_ok row kth p" using ap kth by (simp add: argpartition_contract_def p_def)
  then have perm: "mset p = mset [0..<length row]" by (simp add: argpartition_ok_def)
  have len: "length p = length row" and setp: "set p = {0..<length row}"
    using perm_upt_facts(1,3)[OF perm] by simp_all
  have topset: "set (topk_row ap as row K) = set (drop kth p)"
    using topk_row_set[OF as] by (simp add: kth_def p_def)
  from j obtain b where b: "kth \<le> b" "b < length p" "j = p ! b"
    unfolding topset in_set_drop_nth by blast
  from i(1) have "i \<in> set p" by (simp add: setp)
  then obtain a where a: "a < length p" "i = p ! a"
    by (auto simp: in_set_conv_nth)
  have "a < kth"
  proof (rule ccontr)
    assume "\<not> a < kth"
    then have "kth \<le> a" by simp
    then have "p ! a \<in> set (drop kth p)"
      unfolding in_set_drop_nth using a(1) by blast
    with i(2) a(2) topset show False by simp
  qed
  then have "row ! i \<le> row ! (p ! kth)"
    using ok a(2) by (simp add: argpartition_ok_def)
  also have "\<dots> \<le> row ! j"
  proof (cases "b = kth")
    case True
    then show ?thesis using b by simp
  next
    case False
    then have "kth < b" using b(1) by simp
    then show ?thesis using ok b len by (simp add: argpartition_ok_def)
  qed
  finally show ?thesis .
qed


subsection \<open>The whole matrix\<close>

lemma pred_list_of_rows:
  assumes sm: "masked_score_matrix scores U I train = Inr sm"
    and ap: "argpartition_contract ap" and K: "0 < K" "K \<le> I"
  shows "pred_list_of ap as scores U I train K = Inr (map (\<lambda>row. topk_row ap as row K) sm)"
proof (cases "U = 0")
  case True
  then have "sm = []" using masked_score_matrix_cell(1)[OF sm] by simp
  then show ?thesis
    using True sm by (simp add: pred_list_of_def np_argpartition_def last_cols_def take_rows_def
        reverse_rows_def)
next
  case False
  have len: "length sm = U" and rows: "\<And>u. u < U \<Longrightarrow> length (sm ! u) = I"
    using masked_score_matrix_cell(1,2)[OF sm] by simp_all
  have kth: "nat (- int K + int I) = I - K" "nat (int I - int K) = I - K" using K by simp_all
  define ind0 where "ind0 = map (\<lambda>row. ap row (I - K)) sm"
  have np: "np_argpartition ap sm U I (- int K) = Inr ind0"
    using False K by (simp add: np_argpartition_def ind0_def kth Let_def)
  have lp: "length (ap (sm ! u) (I - K)) = I" if "u < U" for u
    using perm_upt_facts(1)[OF ap_perm[OF ap K(1), of "sm ! u"]] rows[OF that] K by simp
  define ind where "ind = last_cols K ind0"
  have ind_len: "length ind = U" by (simp add: ind_def last_cols_def ind0_def len)
  have ind_nth: "ind ! u = drop (I - K) (ap (sm ! u) (I - K))" if "u < U" for u
    using that K lp[OF that] by (simp add: ind_def last_cols_def ind0_def len)
  define arr_ind where "arr_ind = take_rows sm ind"
  have arr_len: "length arr_ind = U" by (simp add: arr_ind_def take_rows_def len ind_len)
  have arr_nth: "arr_ind ! u = map (\<lambda>j. sm ! u ! j) (ind ! u)" if "u < U" for u
    using that by (simp add: arr_ind_def take_rows_def len ind_len)
  define srt where "srt = reverse_rows U (map as arr_ind)"
  have srt_len: "length srt = U" by (simp add: srt_def reverse_rows_def)
  have srt_nth: "srt ! u = rev (as (arr_ind ! u))" if "u < U" for u
    using that by (simp add: srt_def reverse_rows_def arr_len)
  have "take_rows ind srt = map (\<lambda>row. topk_row ap as row K) sm"
  proof (rule nth_equalityI)
    show "length (take_rows ind srt) = length (map (\<lambda>row. topk_row ap as row K) sm)"
      by (simp add: take_rows_def ind_len srt_len len)
  next
    fix u assume "u < length (take_rows ind srt)"
    then have u: "u < U" by (simp add: take_rows_def ind_len srt_len)
    have "take_rows ind srt ! u = map (\<lambda>j. ind ! u ! j) (srt ! u)"
      using u by (simp add: take_rows_def ind_len srt_len)
    also have "\<dots> = topk_row ap as (sm ! u) K"
      using u by (simp add: srt_nth arr_nth ind_nth topk_row_def rows Let_def)
    finally show "take_rows ind srt ! u = map (\<lambda>row. topk_row ap as row K) sm ! u"
      using u by (simp add: len)
  qed
  then show ?thesis
    by (simp add: pred_list_of_def sm np Let_def ind_def arr_ind_def srt_def)
qed

lemma pred_list_of_topk:
  assumes ap: "argpartition_contract ap" and as: "argsort_contract as"
    and sm: "masked_score_matrix scores U I train = Inr sm"
    and K: "0 < K" "K \<le> I"
  shows "pred_list_of ap as scores U I train K = Inr (map (\<lambda>row. topk_row ap as row K) sm)"
    and "length (map (\<lambda>row. topk_row ap as row K) sm) = U"
    and "u < U \<Longrightarrow> map (\<lambda>row. topk_row ap as row K) sm ! u = topk_row ap as (sm ! u) K"
    and "u < U \<Longrightarrow> K \<le> length (sm ! u)"
  using pred_list_of_rows[OF sm ap K] masked_score_matrix_cell(1,2)[OF sm] K by simp_all

subsection \<open>Functions that meet the contracts of numpy\<close>

lemma stable_argsort_ok: "argsort_contract stable_argsort"
  by (simp add: argsort_contract_def argsort_ok_def stable_argsort_def)

lemma sorting_argpartition_ok: "argpartition_contract sorting_argpartition"
proof -
  have "argpartition_ok row kth (stable_argsort row)" if "kth < length row" for row kth
  proof -
    define p where "p = stable_argsort row"
    have perm: "mset p = mset [0..<length row]" and srt: "sorted (map (\<lambda>i. row ! i) p)"
      by (simp_all add: p_def stable_argsort_def)
    have len: "length p = length row" using perm_upt_facts(1)[OF perm] .
    have mono: "row ! (p ! a) \<le> row ! (p ! b)" if "a \<le> b" "b < length row" for a b
      using sorted_nth_mono[OF srt, of a b] that len by simp
    show ?thesis
      unfolding argpartition_ok_def p_def[symmetric]
      using perm mono that by (auto intro: mono)
  qed
  then show ?thesis by (simp add: argpartition_contract_def sorting_argpartition_def)
qed


subsection \<open>Length, order and exclusion\<close>

text \<open>
  Claim C8. For \<open>0 < K \<le> I\<close>, a score vector of \<open>U * I\<close> entries and training edges inside
  the matrix, the evaluator returns a list for each of the \<open>U\<close> users, and each list has
  exactly \<open>K\<close> entries, whatever the number of training edges of the user.
\<close>

theorem pred_list_length_K:
  assumes "argpartition_contract ap" and "argsort_contract as"
    and "length scores = U * I" and "\<forall>(u, i) \<in> set train. u < U \<and> i < I"
    and "0 < K" and "K \<le> I"
  shows "\<exists>pred_list. pred_list_of ap as scores U I train K = Inr pred_list
           \<and> length pred_list = U \<and> (\<forall>u < U. length (pred_list ! u) = K)"
proof -
  from masked_score_matrix_succeeds[OF assms(3,4)]
  obtain sm where sm: "masked_score_matrix scores U I train = Inr sm" by blast
  note t = pred_list_of_topk[OF assms(1,2) sm assms(5,6)]
  have "length (topk_row ap as (sm ! u) K) = K" if "u < U" for u
    using topk_row_length[OF assms(1,2,5) t(4)[OF that]] .
  then show ?thesis using t(1,2,3) by simp
qed

text \<open>
  An instance in which user \<open>0\<close> has one item left after masking and still gets \<open>K = 2\<close>
  entries.
\<close>

theorem pred_list_length_K_witness:
  "pred_list_of sorting_argpartition stable_argsort [Some 1, Some 5, Some 3, Some 2, Some 9, Some 8, Some 7, Some 6] 2 4
       [(0, 1), (0, 0), (0, 2)] 2 = Inr [[3, 2], [0, 1]]
   \<and> (\<exists>pred_list. pred_list_of sorting_argpartition stable_argsort [Some 1, Some 5, Some 3, Some 2, Some 9, Some 8, Some 7, Some 6] 2 4
          [(0, 1), (0, 0), (0, 2)] 2 = Inr pred_list
        \<and> length pred_list = 2 \<and> (\<forall>u < 2. length (pred_list ! u) = 2))"
proof -
  have e: "pred_list_of sorting_argpartition stable_argsort [Some 1, Some 5, Some 3, Some 2, Some 9, Some 8, Some 7, Some 6] 2 4
       [(0, 1), (0, 0), (0, 2)] 2 = Inr [[3, 2], [0, 1]]"
    by (simp add: pred_list_of_def masked_score_matrix_def reshape_def np_argpartition_def
        last_cols_def take_rows_def reverse_rows_def sorting_argpartition_def stable_argsort_def
        upt_conv_Cons)
  have "\<exists>pred_list. pred_list_of sorting_argpartition stable_argsort [Some 1, Some 5, Some 3, Some 2, Some 9, Some 8, Some 7, Some 6] 2 4
          [(0, 1), (0, 0), (0, 2)] 2 = Inr pred_list
        \<and> length pred_list = 2 \<and> (\<forall>u < 2. length (pred_list ! u) = 2)"
    by (rule pred_list_length_K[OF sorting_argpartition_ok stable_argsort_ok]) simp_all
  with e show ?thesis by blast
qed



text \<open>
  Counterexample to C3 as stated, which says that for every \<open>0 < K \<le> I\<close> no training
  edge of a user is in the user's list. With \<open>I = K = 2\<close> and the training edge \<open>(0, 0)\<close>, the list of user \<open>0\<close> holds both
  items, the masked item \<open>0\<close> last.
\<close>

theorem pred_list_contains_train_item:
  "pred_list_of sorting_argpartition stable_argsort [Some 1, Some 5] 1 2 [(0, 0)] 2 = Inr [[1, 0]]
   \<and> (0, [[1, 0]] ! 0 ! 1) \<in> set [(0::nat, 0::nat)]"
  by (simp add: pred_list_of_def masked_score_matrix_def reshape_def np_argpartition_def
      last_cols_def take_rows_def reverse_rows_def sorting_argpartition_def stable_argsort_def
      upt_conv_Cons)

text \<open>
  Claim C3, as the code has it. For \<open>0 < K \<le> I\<close> and a user with at least \<open>K\<close> items
  that are not training edges of the user and whose score is above negative infinity, no
  item of the user's list is a training edge of the user.
\<close>

theorem pred_list_excludes_train:
  assumes "argpartition_contract ap" and "argsort_contract as"
    and "length scores = U * I" and "\<forall>(u, i) \<in> set train. u < U \<and> i < I"
    and "0 < K" and "K \<le> I"
    and "u < U"
    and "K \<le> card {i. i < I \<and> (u, i) \<notin> set train \<and> scores ! (u * I + i) \<noteq> None}"
  shows "\<exists>pred_list. pred_list_of ap as scores U I train K = Inr pred_list
           \<and> (\<forall>i \<in> set (pred_list ! u). (u, i) \<notin> set train)"
proof -
  from masked_score_matrix_succeeds[OF assms(3,4)]
  obtain sm where sm: "masked_score_matrix scores U I train = Inr sm" by blast
  note t = pred_list_of_topk[OF assms(1,2) sm assms(5,6)]
  define row where "row = sm ! u"
  define p where "p = topk_row ap as row K"
  define E where "E = {i. i < I \<and> (u, i) \<notin> set train \<and> scores ! (u * I + i) \<noteq> None}"
  have Kr: "K \<le> length row" using t(4)[OF assms(7)] by (simp add: row_def)
  have rl: "length row = I" using masked_score_matrix_cell(2)[OF sm assms(7)] by (simp add: row_def)
  have cell: "row ! i = (if (u, i) \<in> set train then None else scores ! (u * I + i))"
    if "i < I" for i
    using masked_score_matrix_cell(3)[OF sm assms(7) that] by (simp add: row_def)
  have l: "length p = K" unfolding p_def by (rule topk_row_length[OF assms(1,2,5) Kr])
  have d: "distinct p" unfolding p_def by (rule topk_row_distinct[OF assms(1,2,5) Kr])
  have rng: "set p \<subseteq> {0..<I}"
    using topk_row_in_range[OF assms(1,2,5) Kr] by (simp add: p_def rl)
  have "(u, j) \<notin> set train" if j: "j \<in> set p" for j
  proof
    assume tr: "(u, j) \<in> set train"
    have jI: "j < I" using rng j by auto
    have rj: "row ! j = None" using cell[OF jI] tr by simp
    have "E \<subseteq> set p - {j}"
    proof
      fix i assume "i \<in> E"
      then have i: "i < I" "(u, i) \<notin> set train" "scores ! (u * I + i) \<noteq> None"
        by (simp_all add: E_def)
      have "i \<in> set p"
      proof (rule ccontr)
        assume "i \<notin> set p"
        then have "row ! i \<le> row ! j"
          using topk_row_dominates[OF assms(1,2,5) Kr, of i j] i(1) j rl by (simp add: p_def)
        then show False using cell[OF i(1)] i(2,3) rj by (simp add: less_eq_option_None_is_None)
      qed
      moreover have "i \<noteq> j" using i(2) tr by auto
      ultimately show "i \<in> set p - {j}" by simp
    qed
    then have "card E \<le> card (set p - {j})" by (intro card_mono) simp_all
    also have "\<dots> = K - 1" using j d l by (simp add: distinct_card)
    finally show False using assms(5,8) by (simp add: E_def)
  qed
  then show ?thesis using t(1) t(3)[OF assms(7)] by (simp add: p_def row_def)
qed

theorem pred_list_excludes_train_witness:
  "\<exists>pred_list. pred_list_of sorting_argpartition stable_argsort
         [Some 1, Some 5, None, Some 2, Some 9, Some 8, Some 7, Some 6] 2 4 [(0, 1)] 2
       = Inr pred_list
     \<and> (\<forall>i \<in> set (pred_list ! 0). (0, i) \<notin> set [(0::nat, 1::nat)])"
proof (rule pred_list_excludes_train[OF sorting_argpartition_ok stable_argsort_ok])
  let ?E = "{i. i < 4 \<and> (0, i) \<notin> set [(0::nat, 1::nat)]
              \<and> [Some 1, Some 5, None, Some 2, Some 9, Some 8, Some 7, Some (6::real)] ! (0 * 4 + i) \<noteq> None}"
  have "{0, 3} \<subseteq> ?E" by simp
  moreover have "finite ?E" by simp
  ultimately have "card {0, 3 :: nat} \<le> card ?E" by (rule card_mono[rotated])
  then show "2 \<le> card ?E" by simp
qed simp_all

text \<open>
  The hypothesis on the scores is needed: an item that is no training edge but whose score
  is negative infinity ties with the masked items, and the order among ties is the
  library's. With \<open>I = 2\<close>, \<open>K = 1\<close>, the training edge \<open>(0, 1)\<close> and the score of item \<open>0\<close>
  at negative infinity, a stable sort puts the training item \<open>1\<close> in the list.
\<close>

lemma pred_list_tie_with_mask:
  "pred_list_of sorting_argpartition stable_argsort [None, Some 1] 1 2 [(0, 1)] 1 = Inr [[1]]"
  by (simp add: pred_list_of_def masked_score_matrix_def reshape_def np_argpartition_def
      last_cols_def take_rows_def reverse_rows_def sorting_argpartition_def stable_argsort_def
      upt_conv_Cons)

section \<open>The ranking loss\<close>

lemma repeat_interleave_length: "length (repeat_interleave xs k) = k * length xs"
  by (induction xs) (simp_all add: repeat_interleave_def)

lemma repeat_interleave_nth:
  "j < k * length xs \<Longrightarrow> repeat_interleave xs k ! j = xs ! (j div k)"
proof (induction xs arbitrary: j)
  case Nil
  then show ?case by simp
next
  case (Cons x xs)
  have k: "0 < k" using Cons.prems by (cases k) simp_all
  show ?case
  proof (cases "j < k")
    case True
    then show ?thesis by (simp add: repeat_interleave_def nth_append)
  next
    case False
    then have jk: "k \<le> j" by simp
    then have "j - k < k * length xs" using Cons.prems by (simp add: algebra_simps)
    then have "repeat_interleave xs k ! (j - k) = xs ! ((j - k) div k)" by (rule Cons.IH)
    moreover have "j div k = Suc ((j - k) div k)" using jk k by (simp add: le_div_geq)
    ultimately show ?thesis using False by (simp add: repeat_interleave_def nth_append)
  qed
qed

lemma th_mean_uminus: "num_uminus (th_mean xs) = th_mean (map uminus xs)"
proof -
  have "sum_list (map uminus xs) = - sum_list xs" by (induction xs) simp_all
  then show ?thesis by (simp add: th_mean_def)
qed

lemma bpr_loss_formula:
  assumes "ScorePredictor pos x = Inr p" "ScorePredictor neg x = Inr n"
    and "length n = num_neg self * length p"
  shows "bpr_loss self pos neg x = Inr (bpr_formula p n (num_neg self))"
proof -
  define k where "k = num_neg self"
  have len: "length (repeat_interleave p k) = length n"
    using assms(3) by (simp add: repeat_interleave_length k_def)
  have d: "map2 (-) (repeat_interleave p k) n = map (\<lambda>j. p ! (j div k) - n ! j) [0..<length n]"
    using len assms(3) by (intro nth_equalityI) (simp_all add: repeat_interleave_nth k_def)
  have "bpr_loss self pos neg x
      = Inr (num_uminus (th_mean (map (\<lambda>v. ln (sigmoid v)) (map2 (-) (repeat_interleave p k) n))))"
    using len by (simp add: bpr_loss_def assms(1,2) tensor_sub_def k_def)
  also have "\<dots> = Inr (bpr_formula p n k)"
    unfolding d th_mean_uminus by (simp add: bpr_formula_def o_def)
  finally show ?thesis by (simp add: k_def)
qed

lemma th_mean_squares:
  "th_mean (map (\<lambda>v. v ^ 2) (concat e)) = (if concat e = [] then NaN else Num (mean_square e))"
  by (simp add: th_mean_def mean_square_def)

lemma foldl_reg:
  "foldl (\<lambda>reg_loss e. num_add reg_loss (th_mean (map (\<lambda>v. v ^ 2) (concat e)))) acc es
     = (case acc of NaN \<Rightarrow> NaN
        | Num a \<Rightarrow> if \<exists>e \<in> set es. concat e = [] then NaN
                    else Num (a + (\<Sum>e \<leftarrow> es. mean_square e)))"
proof (induction es arbitrary: acc)
  case Nil
  then show ?case by (simp split: num.splits)
next
  case (Cons e es)
  let ?f = "\<lambda>reg_loss e. num_add reg_loss (th_mean (map (\<lambda>v. v ^ 2) (concat e)))"
  have "foldl ?f acc (e # es) = foldl ?f (?f acc e) es"
    by (simp only: foldl_Cons)
  also have "\<dots> = (case ?f acc e of NaN \<Rightarrow> NaN
        | Num a \<Rightarrow> if \<exists>e \<in> set es. concat e = [] then NaN
                    else Num (a + (\<Sum>e \<leftarrow> es. mean_square e)))"
    by (rule Cons.IH)
  also have "\<dots> = (case acc of NaN \<Rightarrow> NaN
        | Num a \<Rightarrow> if \<exists>e \<in> set (e # es). concat e = [] then NaN
                    else Num (a + (\<Sum>e \<leftarrow> e # es. mean_square e)))"
    unfolding th_mean_squares
    by (cases acc; cases "concat e = []") (auto simp: add.assoc)
  finally show ?case .
qed

lemma regularization_loss_formula: "regularization_loss x = reg_formula x"
  by (simp add: regularization_loss_def foldl_reg reg_formula_def)

text \<open>
  Claim C7. When the negative score vector has \<open>num_neg\<close> entries for each positive
  score, \<open>loss_calculation\<close> returns \<open>mean (- log (sigmoid (p' - n))) + reg_weight * reg\<close>,
  where \<open>p'\<close> repeats each positive score \<open>num_neg\<close> times and \<open>reg\<close> is the sum over the
  node types of the mean of the squared entries of the type's embedding matrix.
\<close>

theorem loss_calculation_formula:
  assumes "ScorePredictor pos x = Inr p" and "ScorePredictor neg x = Inr n"
    and "length n = num_neg self * length p"
  shows "loss_calculation self pos neg x
     = Inr (num_add (bpr_formula p n (num_neg self)) (num_mul (Num (reg_weight self)) (reg_formula x)))"
  using bpr_loss_formula[OF assms] by (simp add: loss_calculation_def regularization_loss_formula)

theorem loss_calculation_formula_witness:
  "ScorePredictor \<lparr>num_nodes_user = 1, num_nodes_item = 2, ui_edges = [(0, 0)]\<rparr>
       [(''user'', [[1, 2]]), (''item'', [[3, 4], [0, 1]])] = Inr [11]
   \<and> ScorePredictor \<lparr>num_nodes_user = 1, num_nodes_item = 2, ui_edges = [(0, 1), (0, 1)]\<rparr>
       [(''user'', [[1, 2]]), (''item'', [[3, 4], [0, 1]])] = Inr [2, 2]
   \<and> length [2, 2 :: real] = num_neg (init 10 100 2 1 2) * length [11 :: real]
   \<and> loss_calculation (init 10 100 2 1 2)
        \<lparr>num_nodes_user = 1, num_nodes_item = 2, ui_edges = [(0, 0)]\<rparr>
        \<lparr>num_nodes_user = 1, num_nodes_item = 2, ui_edges = [(0, 1), (0, 1)]\<rparr>
        [(''user'', [[1, 2]]), (''item'', [[3, 4], [0, 1]])]
      = Inr (num_add (bpr_formula [11] [2, 2] (num_neg (init 10 100 2 1 2)))
               (num_mul (Num (reg_weight (init 10 100 2 1 2)))
                  (reg_formula [(''user'', [[1, 2]]), (''item'', [[3, 4], [0, 1]])])))"
proof -
  have h1: "ScorePredictor \<lparr>num_nodes_user = 1, num_nodes_item = 2, ui_edges = [(0, 0)]\<rparr>
       [(''user'', [[1, 2]]), (''item'', [[3, 4], [0, 1]])] = Inr [11]"
    by (simp add: ScorePredictor_def dot_def)
  have h2: "ScorePredictor \<lparr>num_nodes_user = 1, num_nodes_item = 2, ui_edges = [(0, 1), (0, 1)]\<rparr>
       [(''user'', [[1, 2]]), (''item'', [[3, 4], [0, 1]])] = Inr [2, 2]"
    by (simp add: ScorePredictor_def dot_def)
  have h3: "length [2, 2 :: real] = num_neg (init 10 100 2 1 2) * length [11 :: real]"
    by (simp add: init_def)
  show ?thesis
    using loss_calculation_formula[OF h1 h2 h3] h1 h2 h3 by blast
qed

subsection \<open>The regularisation weight\<close>

lemma reachable_reg_weight: "reachable self \<Longrightarrow> reg_weight self = 0"
  by (induction rule: reachable.induct) (simp_all add: init_def preprocess_def Let_def)

lemma f32_max_pos: "0 < f32_max"
  by (simp add: f32_max_def)

lemma f32_of_Fin: "f32_of x = Fin y \<Longrightarrow> y = x \<and> - f32_max \<le> x \<and> x \<le> f32_max"
  by (auto simp: f32_of_def split: if_splits)

lemma f32_add_Fin: "f32_add p q = Fin c \<Longrightarrow> \<exists>a b. p = Fin a \<and> q = Fin b \<and> c = a + b"
  by (cases p; cases q) (auto dest: f32_of_Fin)

lemma f32_add_zero: "f32_add (f32_of_num b) (Fin 0) = f32_of_num b"
proof (cases b)
  case NaN
  then show ?thesis by (simp add: f32_of_num_def)
next
  case (Num r)
  then show ?thesis by (simp add: f32_of_num_def f32_of_def)
qed

lemma f32_mul_zero_Fin: "f32_mul (Fin 0) (Fin r) = Fin 0"
  using f32_max_pos by (simp add: f32_of_def)

lemma foldl_f32_add_Fin:
  "foldl f32_add acc xs = Fin s \<Longrightarrow> \<exists>a ys. acc = Fin a \<and> xs = map Fin ys \<and> s = a + sum_list ys"
proof (induction xs arbitrary: acc)
  case Nil
  then show ?case by simp
next
  case (Cons x xs)
  from Cons.prems have "foldl f32_add (f32_add acc x) xs = Fin s" by simp
  from Cons.IH[OF this] obtain a' ys where
    st: "f32_add acc x = Fin a'" and xs: "xs = map Fin ys" and s: "s = a' + sum_list ys"
    by blast
  from f32_add_Fin[OF st] obtain a v where av: "acc = Fin a" "x = Fin v" "a' = a + v" by blast
  show ?case
  proof (intro exI conjI)
    show "acc = Fin a" by (rule av(1))
    show "x # xs = map Fin (v # ys)" using av(2) xs by simp
    show "s = a + sum_list (v # ys)" using s av(3) by simp
  qed
qed

lemma th_mean_f32_squares_Fin:
  assumes "th_mean_f32 (map (\<lambda>v. f32_of (v ^ 2)) vs) = Fin m"
  shows "vs \<noteq> [] \<and> m = (\<Sum>v \<leftarrow> vs. v ^ 2) / real (length vs)"
proof -
  have ne: "vs \<noteq> []" using assms by (auto simp: th_mean_f32_def)
  then have d: "f32_div_count (foldl f32_add (Fin 0) (map (\<lambda>v. f32_of (v ^ 2)) vs)) (length vs) = Fin m"
    using assms by (simp add: th_mean_f32_def)
  then obtain s where s: "foldl f32_add (Fin 0) (map (\<lambda>v. f32_of (v ^ 2)) vs) = Fin s"
    by (cases "foldl f32_add (Fin 0) (map (\<lambda>v. f32_of (v ^ 2)) vs)") simp_all
  from d s have m: "m = s / real (length vs)" by (auto dest: f32_of_Fin)
  from foldl_f32_add_Fin[OF s] obtain ys where
    ys: "map (\<lambda>v. f32_of (v ^ 2)) vs = map Fin ys" and sum: "s = sum_list ys"
    by auto
  have "ys = map (\<lambda>v. v ^ 2) vs"
  proof (rule nth_equalityI)
    show "length ys = length (map (\<lambda>v. v ^ 2) vs)" using ys by (metis length_map)
  next
    fix i assume i: "i < length ys"
    then have iv: "i < length vs" using ys by (metis length_map)
    have "map (\<lambda>v. f32_of (v ^ 2)) vs ! i = map Fin ys ! i" using ys by simp
    then have "f32_of ((vs ! i) ^ 2) = Fin (ys ! i)" using i iv by simp
    then show "ys ! i = map (\<lambda>v. v ^ 2) vs ! i" using iv by (auto dest: f32_of_Fin)
  qed
  with sum m ne show ?thesis by simp
qed

text \<open>
  Where the regularisation term is finite in the range of float32, nothing overflowed on
  the way, and it is the exact term of \<open>regularization_loss\<close>.
\<close>

lemma regularization_loss_f32_Fin:
  assumes "regularization_loss_f32 x = Fin r"
  shows "regularization_loss x = Num r"
proof -
  let ?g = "\<lambda>e. th_mean_f32 (map (\<lambda>v. f32_of (v ^ 2)) (concat e))"
  have fold: "foldl (\<lambda>reg_loss e. f32_add reg_loss (?g e)) acc es = foldl f32_add acc (map ?g es)"
    for acc es
    by (induction es arbitrary: acc) simp_all
  from assms have "foldl f32_add (Fin 0) (map ?g (map snd x)) = Fin r"
    by (simp only: regularization_loss_f32_def fold)
  from foldl_f32_add_Fin[OF this] obtain ys where
    ys: "map ?g (map snd x) = map Fin ys" and r: "r = sum_list ys"
    by auto
  have len: "length ys = length (map snd x)" using ys by (metis length_map)
  have each: "concat (map snd x ! i) \<noteq> [] \<and> ys ! i = mean_square (map snd x ! i)"
    if "i < length (map snd x)" for i
  proof -
    have "map ?g (map snd x) ! i = map Fin ys ! i" using ys by simp
    then have "?g (map snd x ! i) = Fin (ys ! i)" using that len by simp
    from th_mean_f32_squares_Fin[OF this] show ?thesis by (simp add: mean_square_def)
  qed
  have ne: "\<not> (\<exists>e \<in> set (map snd x). concat e = [])"
    using each by (metis in_set_conv_nth)
  have "ys = map mean_square (map snd x)"
    using len each by (intro nth_equalityI) simp_all
  then have "r = (\<Sum>e \<leftarrow> map snd x. mean_square e)" using r by simp
  with ne show ?thesis by (simp add: regularization_loss_formula reg_formula_def)
qed

text \<open>
  Counterexample to C10 as stated, which says that for every input the loss is the pure
  BPR term. A node type \<^verbatim>\<open>tag\<close> with the single embedding entry \<open>10^20\<close>, which no edge
  touches: its square is beyond the range of float32, so the regularisation term is
  infinite, zero times it is not-a-number, and so is the loss, while the BPR term is
  \<open>ln 2\<close>.
\<close>

theorem loss_is_nan_with_overflowing_square:
  "loss_calculation_f32 (init 10 100 1 1 1)
      \<lparr>num_nodes_user = 1, num_nodes_item = 1, ui_edges = [(0, 0)]\<rparr>
      \<lparr>num_nodes_user = 1, num_nodes_item = 1, ui_edges = [(0, 0)]\<rparr>
      [(''user'', [[1]]), (''item'', [[1]]), (''tag'', [[10 ^ 20]])] = Inr FNaN
   \<and> bpr_loss (init 10 100 1 1 1)
      \<lparr>num_nodes_user = 1, num_nodes_item = 1, ui_edges = [(0, 0)]\<rparr>
      \<lparr>num_nodes_user = 1, num_nodes_item = 1, ui_edges = [(0, 0)]\<rparr>
      [(''user'', [[1]]), (''item'', [[1]]), (''tag'', [[10 ^ 20]])] = Inr (Num (ln 2))"
  by (simp add: loss_calculation_f32_def bpr_loss_def ScorePredictor_def dot_def init_def
      repeat_interleave_def tensor_sub_def sigmoid_def th_mean_def regularization_loss_f32_def
      th_mean_f32_def f32_of_def f32_max_def f32_of_num_def ln_div)

text \<open>
  The same happens without any overflow when a node type has no node: the mean of the
  squares of its empty matrix is not-a-number.
\<close>

lemma loss_is_nan_with_empty_matrix:
  "loss_calculation_f32 (init 10 100 1 1 1)
      \<lparr>num_nodes_user = 1, num_nodes_item = 1, ui_edges = [(0, 0)]\<rparr>
      \<lparr>num_nodes_user = 1, num_nodes_item = 1, ui_edges = [(0, 0)]\<rparr>
      [(''user'', [[1]]), (''item'', [[1]]), (''tag'', [])] = Inr FNaN
   \<and> loss_calculation (init 10 100 1 1 1)
      \<lparr>num_nodes_user = 1, num_nodes_item = 1, ui_edges = [(0, 0)]\<rparr>
      \<lparr>num_nodes_user = 1, num_nodes_item = 1, ui_edges = [(0, 0)]\<rparr>
      [(''user'', [[1]]), (''item'', [[1]]), (''tag'', [])] = Inr NaN"
  by (simp add: loss_calculation_f32_def loss_calculation_def bpr_loss_def ScorePredictor_def
      dot_def init_def repeat_interleave_def tensor_sub_def sigmoid_def th_mean_def
      regularization_loss_f32_def regularization_loss_def th_mean_f32_def f32_of_def
      f32_max_def f32_of_num_def ln_div)

text \<open>
  Claim C10, as the code has it. In every state of a run the regularisation weight is
  \<open>0\<close>, and for every input whose regularisation term is finite (neither an infinity nor
  not-a-number) the loss, computed in the range of float32 by \<open>loss_calculation_f32\<close>, is
  exactly what the BPR term is: the same value, or the same error.
\<close>

theorem loss_is_bpr_loss:
  assumes "reachable self" and "regularization_loss_f32 x = Fin r"
  shows "reg_weight self = 0
         \<and> loss_calculation_f32 self pos neg x = map_sum id f32_of_num (bpr_loss self pos neg x)"
proof -
  have w: "reg_weight self = 0" using assms(1) by (rule reachable_reg_weight)
  have "loss_calculation_f32 self pos neg x = map_sum id f32_of_num (bpr_loss self pos neg x)"
  proof (cases "bpr_loss self pos neg x")
    case (Inl e)
    then show ?thesis by (simp add: loss_calculation_f32_def)
  next
    case (Inr b)
    then show ?thesis
      by (simp add: loss_calculation_f32_def assms(2) w f32_mul_zero_Fin f32_add_zero
          del: f32_mul.simps f32_add.simps)
  qed
  with w show ?thesis by simp
qed

theorem loss_is_bpr_loss_witness:
  "regularization_loss_f32 [(''user'', [[1, 2]]), (''item'', [[3, 4], [0, 1]])] = Fin 9
   \<and> reg_weight (preprocess (init 10 100 2 1 2)
       \<lparr>num_nodes_user = 1, num_nodes_item = 2, ui_edges = [(0, 0)]\<rparr>
       \<lparr>num_nodes_user = 1, num_nodes_item = 2, ui_edges = []\<rparr>
       \<lparr>num_nodes_user = 1, num_nodes_item = 2, ui_edges = []\<rparr>
       \<lparr>num_nodes_user = 1, num_nodes_item = 2, ui_edges = [(0, 1), (0, 1)]\<rparr>) = 0
   \<and> loss_calculation_f32 (preprocess (init 10 100 2 1 2)
       \<lparr>num_nodes_user = 1, num_nodes_item = 2, ui_edges = [(0, 0)]\<rparr>
       \<lparr>num_nodes_user = 1, num_nodes_item = 2, ui_edges = []\<rparr>
       \<lparr>num_nodes_user = 1, num_nodes_item = 2, ui_edges = []\<rparr>
       \<lparr>num_nodes_user = 1, num_nodes_item = 2, ui_edges = [(0, 1), (0, 1)]\<rparr>)
        \<lparr>num_nodes_user = 1, num_nodes_item = 2, ui_edges = [(0, 0)]\<rparr>
        \<lparr>num_nodes_user = 1, num_nodes_item = 2, ui_edges = [(0, 1), (0, 1)]\<rparr>
        [(''user'', [[1, 2]]), (''item'', [[3, 4], [0, 1]])]
     = map_sum id f32_of_num (bpr_loss (preprocess (init 10 100 2 1 2)
       \<lparr>num_nodes_user = 1, num_nodes_item = 2, ui_edges = [(0, 0)]\<rparr>
       \<lparr>num_nodes_user = 1, num_nodes_item = 2, ui_edges = []\<rparr>
       \<lparr>num_nodes_user = 1, num_nodes_item = 2, ui_edges = []\<rparr>
       \<lparr>num_nodes_user = 1, num_nodes_item = 2, ui_edges = [(0, 1), (0, 1)]\<rparr>)
        \<lparr>num_nodes_user = 1, num_nodes_item = 2, ui_edges = [(0, 0)]\<rparr>
        \<lparr>num_nodes_user = 1, num_nodes_item = 2, ui_edges = [(0, 1), (0, 1)]\<rparr>
        [(''user'', [[1, 2]]), (''item'', [[3, 4], [0, 1]])])"
proof -
  have h1: "reachable (preprocess (init 10 100 2 1 2)
       \<lparr>num_nodes_user = 1, num_nodes_item = 2, ui_edges = [(0, 0)]\<rparr>
       \<lparr>num_nodes_user = 1, num_nodes_item = 2, ui_edges = []\<rparr>
       \<lparr>num_nodes_user = 1, num_nodes_item = 2, ui_edges = []\<rparr>
       \<lparr>num_nodes_user = 1, num_nodes_item = 2, ui_edges = [(0, 1), (0, 1)]\<rparr>)"
    by (intro reachable.intros)
  have h2: "regularization_loss_f32 [(''user'', [[1, 2]]), (''item'', [[3, 4], [0, 1]])] = Fin 9"
    by (simp add: regularization_loss_f32_def th_mean_f32_def f32_of_def f32_max_def)
  show ?thesis
    using loss_is_bpr_loss[OF h1 h2] h2 by blast
qed

subsection \<open>The evaluation graph\<close>

text \<open>
  The evaluation graph that \<open>preprocess\<close> builds lists the pairs row by row: its edge
  number \<open>u * I + i\<close> is \<open>(u, i)\<close>, so that entry \<open>(u, i)\<close> of the reshaped score matrix is
  the score of item \<open>i\<close> for user \<open>u\<close>.
\<close>

lemma repeat_nth: "j < n * length xs \<Longrightarrow> repeat xs n ! j = xs ! (j mod length xs)"
proof (induction n arbitrary: j)
  case 0
  then show ?case by simp
next
  case (Suc n)
  show ?case
  proof (cases "j < length xs")
    case True
    then show ?thesis by (simp add: repeat_def nth_append)
  next
    case False
    then have "j - length xs < n * length xs" using Suc.prems by simp
    then have "repeat xs n ! (j - length xs) = xs ! ((j - length xs) mod length xs)"
      by (rule Suc.IH)
    then show ?thesis using False by (simp add: repeat_def nth_append le_mod_geq)
  qed
qed

lemma eval_graph_edges:
  assumes "eval_graph (preprocess self tr va te ng) = Some eg" "u < num_user self" "i < num_item self"
  shows "length (ui_edges eg) = num_user self * num_item self"
    and "ui_edges eg ! (u * num_item self + i) = (u, i)"
proof -
  define U where "U = num_user self"
  define I where "I = num_item self"
  have eg: "ui_edges eg = zip (repeat_interleave [0..<U] I) (repeat [0..<I] U)"
    using assms(1) by (auto simp: preprocess_def Let_def U_def I_def)
  have l1: "length (repeat_interleave [0..<U] I) = U * I"
    by (simp add: repeat_interleave_length mult.commute)
  have l2: "length (repeat [0..<I] U) = U * I"
    by (induction U) (simp_all add: repeat_def)
  have "length (ui_edges eg) = U * I" by (simp add: eg l1 l2)
  then show "length (ui_edges eg) = num_user self * num_item self"
    by (simp add: U_def I_def)
  have "Suc u \<le> U" using assms(2) by (simp add: U_def)
  then have "Suc u * I \<le> U * I" by (rule mult_le_mono1)
  then have "u * I + I \<le> U * I" by simp
  then have j: "u * I + i < U * I" using assms(3) by (simp add: I_def)
  have a: "repeat_interleave [0..<U] I ! (u * I + i) = u"
    using repeat_interleave_nth[of "u * I + i" I "[0..<U]"] j assms(2,3)
    by (simp add: mult.commute U_def I_def)
  have b: "repeat [0..<I] U ! (u * I + i) = i"
    using repeat_nth[of "u * I + i" U "[0..<I]"] j assms(3) by (simp add: I_def)
  have "ui_edges eg ! (u * I + i) = (u, i)"
    using j a b by (simp add: eg l1 l2)
  then show "ui_edges eg ! (u * num_item self + i) = (u, i)"
    by (simp add: I_def)
qed

lemma eval_score_cell:
  assumes "eval_graph (preprocess self tr va te ng) = Some eg"
    and "ScorePredictor eg x = Inr scores"
    and "map_of x ''user'' = Some x_user" and "map_of x ''item'' = Some x_item"
    and "u < num_user self" and "i < num_item self"
  shows "length scores = num_user self * num_item self"
    and "scores ! (u * num_item self + i) = dot (x_user ! u) (x_item ! i)"
proof -
  have s: "scores = map (\<lambda>(u, i). dot (x_user ! u) (x_item ! i)) (ui_edges eg)"
    using assms(2,3,4) by (simp add: ScorePredictor_def split: if_splits)
  note e = eval_graph_edges[OF assms(1,5,6)]
  show "length scores = num_user self * num_item self" by (simp add: s e(1))
  have "Suc u \<le> num_user self" using assms(5) by simp
  then have "Suc u * num_item self \<le> num_user self * num_item self" by (rule mult_le_mono1)
  then have "u * num_item self + i < length (ui_edges eg)" using assms(6) e(1) by simp
  then show "scores ! (u * num_item self + i) = dot (x_user ! u) (x_item ! i)"
    by (simp add: s e(2))
qed

end
